theory Spec2Isabelle
  imports Main "HOL-Library.Log_Nat"
begin

section \<open>Python values shared by the modules\<close>

text \<open>
  Python floats are modelled by the rational number they denote: every finite binary64
  value is a rational, comparison of floats is comparison of these rationals, and the
  percentages and timeouts of this program are never NaN or infinite.  Where the source
  computes with floats (the progress formula) the rounding of each operation is written
  out, see \<open>fl\<close> below.  Python's unbounded \<open>int\<close> is \<open>int\<close>.
\<close>

datatype py_error = KeyError string | AttributeError string | ZeroDivisionError

subsection \<open>Decimal rendering\<close>

definition digit_char :: "nat \<Rightarrow> char" where
  "digit_char d = ''0123456789'' ! d"

function str_nat :: "nat \<Rightarrow> string" where
  "str_nat n = (if n < 10 then [digit_char n] else str_nat (n div 10) @ [digit_char (n mod 10)])"
  by pat_completeness auto
termination
  by (relation "measure id") auto

declare str_nat.simps [simp del]

text \<open>Rounding to the nearest integer, exact ties to the even neighbour.\<close>

definition round_half_even :: "rat \<Rightarrow> int" where
  "round_half_even q =
     (let f = \<lfloor>q\<rfloor>; d = q - of_int f
      in if d < 1 / 2 then f else if 1 / 2 < d then f + 1 else if even f then f else f + 1)"

text \<open>
  The format specification \<open>:.1f\<close>: the exact value rounded to one decimal place
  (ties to even), with a sign for negative values.  A float is the rational it denotes,
  so the float \<open>-0.0\<close>, which Python prints with its sign, is 0 here.
\<close>

definition fmt_1f_abs :: "rat \<Rightarrow> string" where
  "fmt_1f_abs q =
     (let n = nat (round_half_even (q * 10))
      in str_nat (n div 10) @ ''.'' @ str_nat (n mod 10))"

definition fmt_1f :: "rat \<Rightarrow> string" where
  "fmt_1f q = (if q < 0 then ''-'' @ fmt_1f_abs (- q) else fmt_1f_abs q)"

section \<open>Blue team: the system monitor (\<open>blue_team.py\<close>)\<close>

text \<open>
  The dictionary built by \<open>collect_system_stats\<close> always has the same six keys, so it
  is a record.  The thresholds are a dictionary that \<open>update_thresholds\<close> can replace
  by any dictionary of the caller, so they stay a map and a missing key raises
  \<open>KeyError\<close>.
\<close>

record stats =
  cpu_percent :: rat
  memory_percent :: rat
  disk_percent :: rat
  network_connections :: nat
  running_processes :: nat
  timestamp :: string

type_synonym thresholds = "string \<rightharpoonup> rat"

text \<open>The signal \<open>alert_generated(severity, category, message)\<close>.\<close>

record alert =
  severity :: string
  category :: string
  message :: string

definition default_thresholds :: thresholds where
  "default_thresholds =
     [''cpu_percent'' \<mapsto> 80, ''memory_percent'' \<mapsto> 85, ''disk_percent'' \<mapsto> 90]"

definition cpu_alert :: "stats \<Rightarrow> alert" where
  "cpu_alert s = \<lparr>severity = ''HIGH'', category = ''CPU'',
     message = ''CPU usage critical: '' @ fmt_1f (cpu_percent s) @ ''%''\<rparr>"

definition memory_alert :: "stats \<Rightarrow> alert" where
  "memory_alert s = \<lparr>severity = ''HIGH'', category = ''Memory'',
     message = ''Memory usage critical: '' @ fmt_1f (memory_percent s) @ ''%''\<rparr>"

definition disk_alert :: "stats \<Rightarrow> alert" where
  "disk_alert s = \<lparr>severity = ''CRITICAL'', category = ''Disk'',
     message = ''Disk usage critical: '' @ fmt_1f (disk_percent s) @ ''%''\<rparr>"

text \<open>
  \<open>check_thresholds\<close>: three \<open>if\<close> statements in sequence.  The result is the list of
  alerts emitted, in order, and the exception that ended the call, if any: the alerts
  emitted before a \<open>KeyError\<close> stay emitted.
\<close>

definition check_thresholds :: "thresholds \<Rightarrow> stats \<Rightarrow> alert list \<times> py_error option" where
  "check_thresholds th s =
     (case th ''cpu_percent'' of
        None \<Rightarrow> ([], Some (KeyError ''cpu_percent''))
      | Some c \<Rightarrow>
          let a1 = (if c < cpu_percent s then [cpu_alert s] else [])
          in (case th ''memory_percent'' of
                None \<Rightarrow> (a1, Some (KeyError ''memory_percent''))
              | Some m \<Rightarrow>
                  let a2 = a1 @ (if m < memory_percent s then [memory_alert s] else [])
                  in (case th ''disk_percent'' of
                        None \<Rightarrow> (a2, Some (KeyError ''disk_percent''))
                      | Some d \<Rightarrow>
                          (a2 @ (if d < disk_percent s then [disk_alert s] else []), None))))"

subsection \<open>Substring test\<close>

text \<open>Python's \<open>k in s\<close> on strings: \<open>k\<close> occurs in \<open>s\<close> as a contiguous block.\<close>

fun starts_with :: "'a list \<Rightarrow> 'a list \<Rightarrow> bool" where
  "starts_with [] ys = True"
| "starts_with (x # xs) [] = False"
| "starts_with (x # xs) (y # ys) = (x = y \<and> starts_with xs ys)"

fun py_in :: "'a list \<Rightarrow> 'a list \<Rightarrow> bool" where
  "py_in k [] = (k = [])"
| "py_in k (y # ys) = (starts_with k (y # ys) \<or> py_in k ys)"

subsection \<open>The threshold evaluator as the specification words it\<close>

text \<open>
  The specification speaks of three metrics, each with a fixed severity and category, and
  of one alert per metric whose value strictly exceeds its threshold.  These definitions
  follow those words; the theorems compare \<open>check_thresholds\<close> with them.
\<close>

datatype metric = CPU | Memory | Disk

fun metric_key :: "metric \<Rightarrow> string" where
  "metric_key CPU = ''cpu_percent''"
| "metric_key Memory = ''memory_percent''"
| "metric_key Disk = ''disk_percent''"

fun metric_value :: "stats \<Rightarrow> metric \<Rightarrow> rat" where
  "metric_value s CPU = cpu_percent s"
| "metric_value s Memory = memory_percent s"
| "metric_value s Disk = disk_percent s"

fun metric_severity :: "metric \<Rightarrow> string" where
  "metric_severity CPU = ''HIGH''"
| "metric_severity Memory = ''HIGH''"
| "metric_severity Disk = ''CRITICAL''"

fun metric_category :: "metric \<Rightarrow> string" where
  "metric_category CPU = ''CPU''"
| "metric_category Memory = ''Memory''"
| "metric_category Disk = ''Disk''"

definition breaches :: "thresholds \<Rightarrow> stats \<Rightarrow> metric \<Rightarrow> bool" where
  "breaches th s k =
     (case th (metric_key k) of None \<Rightarrow> False | Some t \<Rightarrow> t < metric_value s k)"

definition alert_for :: "stats \<Rightarrow> metric \<Rightarrow> alert \<Rightarrow> bool" where
  "alert_for s k a \<longleftrightarrow>
     severity a = metric_severity k \<and> category a = metric_category k \<and>
     py_in (fmt_1f (metric_value s k)) (message a)"

definition example_stats :: stats where
  "example_stats = \<lparr>cpu_percent = 95, memory_percent = 50, disk_percent = 50,
     network_connections = 0, running_processes = 0, timestamp = ''''\<rparr>"

section \<open>Python floats: binary64 rounding\<close>

text \<open>
  A Python float is an IEEE 754 binary64 number: a significand of 53 bits, and every
  arithmetic operation returns the representable number nearest to the exact result,
  exact ties going to the even significand.  \<open>fl q\<close> is that number for the exact
  result \<open>q\<close>: with \<open>2\<^sup>e \<le> q < 2\<^sup>e\<^sup>+\<^sup>1\<close> the representable numbers around \<open>q\<close>
  are the multiples of \<open>2\<^sup>e\<^sup>-\<^sup>5\<^sup>2\<close>.  The exponent range of binary64 is not modelled
  (no overflow, no subnormal numbers): the quotients \<open>scanned / total\<close> of this program
  lie between \<open>1 / total\<close> and 1, far inside it.
\<close>

definition ilog2 :: "rat \<Rightarrow> int" where
  \<comment> \<open>for \<open>q > 0\<close>, the exponent \<open>e\<close> with \<open>2\<^sup>e \<le> q < 2\<^sup>e\<^sup>+\<^sup>1\<close>\<close>
  "ilog2 q =
     (let (n, d) = quotient_of q;
          a = int (floorlog 2 (nat n)) - int (floorlog 2 (nat d))
      in if 2 powi a \<le> q then a else a - 1)"

definition fl_pos :: "rat \<Rightarrow> rat" where
  "fl_pos q = (let u = 2 powi (ilog2 q - 52) in of_int (round_half_even (q / u)) * u)"

definition fl :: "rat \<Rightarrow> rat" where
  "fl q = (if q = 0 then 0 else if q < 0 then - fl_pos (- q) else fl_pos q)"

text \<open>\<open>int(x)\<close> on a float truncates towards zero.\<close>

definition py_int :: "rat \<Rightarrow> int" where
  "py_int q = (if q < 0 then \<lceil>q\<rceil> else \<lfloor>q\<rfloor>)"

text \<open>\<open>str(i)\<close> on an integer.\<close>

definition str_int :: "int \<Rightarrow> string" where
  "str_int i = (if i < 0 then ''-'' @ str_nat (nat (- i)) else str_nat (nat i))"

section \<open>Red team: the port scanner thread (\<open>red_team.py\<close>)\<close>

subsection \<open>One probe\<close>

text \<open>
  What the socket calls of one probe do is the environment's choice:
  \<open>connect_ex\<close> returns an error code (0 for a connection), or host resolution fails
  with \<open>socket.gaierror\<close>, or another exception is raised; the string is \<open>str(e)\<close>.
  The network is a function of the host and the port, for the timeout the scan uses.
\<close>

datatype probe = Connected int | Gaierror string | Failed string

type_synonym network = "string \<Rightarrow> int \<Rightarrow> probe"

definition scan_port :: "network \<Rightarrow> string \<Rightarrow> int \<Rightarrow> string" where
  "scan_port net host port =
     (case net host port of
        Connected result \<Rightarrow> if result = 0 then ''open'' else ''closed''
      | Gaierror _ \<Rightarrow> ''error''
      | Failed _ \<Rightarrow> ''closed'')"

definition common_ports :: "(int \<times> string) list" where
  "common_ports =
     [(20, ''FTP-DATA''), (21, ''FTP''), (22, ''SSH''), (23, ''TELNET''),
      (25, ''SMTP''), (53, ''DNS''), (80, ''HTTP''), (110, ''POP3''),
      (143, ''IMAP''), (443, ''HTTPS''), (445, ''SMB''), (3306, ''MySQL''),
      (3389, ''RDP''), (5432, ''PostgreSQL''), (5900, ''VNC''),
      (6379, ''Redis''), (8080, ''HTTP-Alt''), (8443, ''HTTPS-Alt''),
      (27017, ''MongoDB'')]"

definition identify_service :: "int \<Rightarrow> string" where
  "identify_service port =
     (case map_of common_ports port of Some name \<Rightarrow> name | None \<Rightarrow> ''unknown'')"

subsection \<open>The thread object and its signals\<close>

text \<open>The dictionary that \<open>scan_complete\<close> carries.\<close>

record scan_results =
  res_target :: string
  res_start_port :: int
  res_end_port :: int
  res_open_ports :: "int list"
  res_scan_time :: string

datatype signal =
    Progress_update int
  | Result_update string int string
  | Scan_complete scan_results
  | Error_occurred string

text \<open>
  The attributes set by \<open>__init__\<close>, then what \<open>run\<close> keeps while it executes: the
  ports of \<open>range(start_port, end_port + 1)\<close> not visited yet, the counter
  \<open>scanned\<close>, whether the thread is running (\<open>isRunning()\<close>), and the signals
  emitted so far, oldest first.
\<close>

record scanner_thread =
  target :: string
  start_port :: int
  end_port :: int
  timeout :: rat
  is_running :: bool
  open_ports :: "int list"
  remaining :: "int list"
  scanned :: int
  alive :: bool
  emitted :: "signal list"

definition new_scanner :: "string \<Rightarrow> int \<Rightarrow> int \<Rightarrow> rat \<Rightarrow> scanner_thread" where
  "new_scanner tgt sp ep tmo =
     \<lparr>target = tgt, start_port = sp, end_port = ep, timeout = tmo, is_running = True,
      open_ports = [], remaining = [], scanned = 0, alive = False, emitted = []\<rparr>"

definition total_ports :: "scanner_thread \<Rightarrow> int" where
  "total_ports t = end_port t - start_port t + 1"

text \<open>\<open>int((scanned / total_ports) * 100)\<close>: a float division, a float product, a truncation.\<close>

definition progress_of :: "int \<Rightarrow> int \<Rightarrow> int" where
  "progress_of n tot = py_int (fl (fl (of_int n / of_int tot) * 100))"

text \<open>\<open>start()\<close>: the thread begins \<open>run\<close>, which sets its counter and its range.\<close>

definition start_thread :: "scanner_thread \<Rightarrow> scanner_thread" where
  "start_thread t = t\<lparr>remaining := [start_port t..end_port t], scanned := 0, alive := True\<rparr>"

text \<open>
  The body of the loop for one port.  The division raises \<open>ZeroDivisionError\<close> when
  \<open>total_ports\<close> is 0; what the body did before stays done.
\<close>

definition loop_body :: "network \<Rightarrow> scanner_thread \<Rightarrow> int \<Rightarrow> py_error \<times> scanner_thread + scanner_thread" where
  "loop_body net t port =
     (let status = scan_port net (target t) port;
          t1 = (if status = ''open''
                then t\<lparr>open_ports := open_ports t @ [port],
                       emitted := emitted t @ [Result_update (target t) port (identify_service port)]\<rparr>
                else t);
          t2 = t1\<lparr>scanned := scanned t1 + 1\<rparr>
      in if total_ports t2 = 0 then Inl (ZeroDivisionError, t2)
         else Inr (t2\<lparr>emitted := emitted t2 @
                [Progress_update (progress_of (scanned t2) (total_ports t2))]\<rparr>))"

text \<open>After the loop: the completion signal with the results, and the thread ends.\<close>

definition results_of :: "string \<Rightarrow> scanner_thread \<Rightarrow> scan_results" where
  "results_of now t =
     \<lparr>res_target = target t, res_start_port = start_port t, res_end_port = end_port t,
      res_open_ports = open_ports t, res_scan_time = now\<rparr>"

definition finish :: "string \<Rightarrow> scanner_thread \<Rightarrow> scanner_thread" where
  "finish now t = t\<lparr>alive := False, emitted := emitted t @ [Scan_complete (results_of now t)]\<rparr>"

definition str_error :: "py_error \<Rightarrow> string" where
  "str_error e =
     (case e of
        KeyError k \<Rightarrow> [CHR 0x27] @ k @ [CHR 0x27]
      | AttributeError m \<Rightarrow> m
      | ZeroDivisionError \<Rightarrow> ''division by zero'')"

text \<open>
  One step of the running thread: the test of the \<open>for\<close> loop (is a port left?), the
  test of the flag (\<open>if not self.is_running: break\<close>), then the body; or, when the
  loop is left either way, the code after it.  An exception ends \<open>run\<close> in its handler.
  \<open>now\<close> is the clock's reading, used by the completion signal.
\<close>

definition thread_step :: "network \<Rightarrow> string \<Rightarrow> scanner_thread \<Rightarrow> scanner_thread" where
  "thread_step net now t =
     (if \<not> alive t then t
      else case remaining t of
          [] \<Rightarrow> finish now t
        | port # rest \<Rightarrow>
            if \<not> is_running t then finish now t
            else (case loop_body net t port of
                    Inl (e, t') \<Rightarrow>
                      t'\<lparr>alive := False,
                         emitted := emitted t' @ [Error_occurred (''Scan error: '' @ str_error e)]\<rparr>
                  | Inr t' \<Rightarrow> t'\<lparr>remaining := rest\<rparr>))"

text \<open>\<open>stop()\<close>, called from another thread.\<close>

definition stop :: "scanner_thread \<Rightarrow> scanner_thread" where
  "stop t = t\<lparr>is_running := False\<rparr>"

text \<open>
  The thread left to itself until it ends; this is also what \<open>wait()\<close> returns after.
  The flag is read only at the top of an iteration, so a \<open>stop()\<close> that arrives during
  a probe acts as one that arrives right after that iteration: interleaving \<open>stop\<close>
  between steps covers every moment at which it can be called.
\<close>

function run_to_end :: "network \<Rightarrow> string \<Rightarrow> scanner_thread \<Rightarrow> scanner_thread" where
  "run_to_end net now t = (if alive t then run_to_end net now (thread_step net now t) else t)"
  by pat_completeness auto
termination
proof (relation "measure (\<lambda>(net, now, t). if alive t then Suc (length (remaining t)) else 0)")
  show "wf (measure (\<lambda>(net, now, t). if alive t then Suc (length (remaining t)) else 0))"
    by simp
next
  fix net :: network and now :: string and t :: scanner_thread
  assume "alive t"
  then show "((net, now, thread_step net now t), (net, now, t))
      \<in> measure (\<lambda>(net, now, t). if alive t then Suc (length (remaining t)) else 0)"
    by (auto simp: thread_step_def finish_def loop_body_def Let_def
        split: list.splits sum.splits if_splits)
qed

declare run_to_end.simps [simp del]

text \<open>The whole of \<open>run\<close> when nothing calls \<open>stop()\<close>.\<close>

definition run :: "network \<Rightarrow> string \<Rightarrow> scanner_thread \<Rightarrow> scanner_thread" where
  "run net now t = run_to_end net now (start_thread t)"

text \<open>\<open>k\<close> steps of the thread.\<close>

fun steps :: "nat \<Rightarrow> network \<Rightarrow> string \<Rightarrow> scanner_thread \<Rightarrow> scanner_thread" where
  "steps 0 net now t = t"
| "steps (Suc k) net now t = steps k net now (thread_step net now t)"

subsection \<open>What a scan of a list of ports emits\<close>

text \<open>
  Closed forms used to state what the loop does over the ports \<open>ps\<close>, after \<open>n\<close>
  ports have been scanned: the ports found open, and the signals in order.
\<close>

definition found_open :: "network \<Rightarrow> string \<Rightarrow> int list \<Rightarrow> int list" where
  "found_open net tgt ps = filter (\<lambda>p. scan_port net tgt p = ''open'') ps"

fun loop_signals :: "network \<Rightarrow> string \<Rightarrow> int \<Rightarrow> int \<Rightarrow> int list \<Rightarrow> signal list" where
  "loop_signals net tgt tot n [] = []"
| "loop_signals net tgt tot n (p # ps) =
     (if scan_port net tgt p = ''open'' then [Result_update tgt p (identify_service p)] else [])
     @ [Progress_update (progress_of (n + 1) tot)]
     @ loop_signals net tgt tot (n + 1) ps"

fun progress_values :: "signal list \<Rightarrow> int list" where
  "progress_values [] = []"
| "progress_values (Progress_update v # xs) = v # progress_values xs"
| "progress_values (x # xs) = progress_values xs"

fun result_updates :: "signal list \<Rightarrow> (string \<times> int \<times> string) list" where
  "result_updates [] = []"
| "result_updates (Result_update h p s # xs) = (h, p, s) # result_updates xs"
| "result_updates (x # xs) = result_updates xs"

fun completions :: "signal list \<Rightarrow> scan_results list" where
  "completions [] = []"
| "completions (Scan_complete r # xs) = r # completions xs"
| "completions (x # xs) = completions xs"

fun errors_of :: "signal list \<Rightarrow> string list" where
  "errors_of [] = []"
| "errors_of (Error_occurred m # xs) = m # errors_of xs"
| "errors_of (x # xs) = errors_of xs"

section \<open>The database and the audit log (\<open>database.py\<close>, \<open>logger.py\<close>)\<close>

text \<open>
  The tables \<open>sessions\<close> and \<open>scan_results\<close> as lists of rows in insertion order.
  \<open>sessions.id\<close> is \<open>AUTOINCREMENT\<close>: a counter that never reuses an identifier.
  A JSON column holds the value that was serialised into it.  Every operation that
  stamps a row reads the clock; the reading is the argument \<open>now\<close>.
\<close>

record session =
  session_type :: string
  sess_target :: string
  sess_start_time :: string
  sess_end_time :: "string option"
  sess_config :: "(string \<times> int) list option"
  sess_results :: "scan_results option"
  sess_status :: string

record scan_row =
  row_session_id :: int
  row_timestamp :: string
  row_port :: int
  row_service :: string
  row_status :: string
  row_details :: "string option"

record database =
  next_session_id :: int
  sessions :: "(int \<times> session) list"
  scan_rows :: "scan_row list"

definition create_session ::
  "database \<Rightarrow> string \<Rightarrow> string \<Rightarrow> (string \<times> int) list \<Rightarrow> string \<Rightarrow> database \<times> int" where
  "create_session d stype tgt cfg now =
     (let sid = next_session_id d;
          row = \<lparr>session_type = stype, sess_target = tgt, sess_start_time = now,
                 sess_end_time = None,
                 sess_config = (if cfg = [] then None else Some cfg),
                 sess_results = None, sess_status = ''active''\<rparr>
      in (d\<lparr>next_session_id := sid + 1, sessions := sessions d @ [(sid, row)]\<rparr>, sid))"

definition update_session :: "database \<Rightarrow> int \<Rightarrow> scan_results \<Rightarrow> string \<Rightarrow> database" where
  "update_session d sid res now =
     d\<lparr>sessions :=
         map (\<lambda>(i, s). if i = sid
                then (i, s\<lparr>sess_end_time := Some now, sess_results := Some res,
                           sess_status := ''completed''\<rparr>)
                else (i, s))
           (sessions d)\<rparr>"

definition store_scan_result ::
  "database \<Rightarrow> int \<Rightarrow> int \<Rightarrow> string \<Rightarrow> string \<Rightarrow> string \<Rightarrow> database" where
  "store_scan_result d sid port service st now =
     d\<lparr>scan_rows := scan_rows d @
         [\<lparr>row_session_id = sid, row_timestamp = now, row_port = port, row_service = service,
           row_status = st, row_details = None\<rparr>]\<rparr>"

definition session_status :: "database \<Rightarrow> int \<Rightarrow> string option" where
  "session_status d sid = map_option sess_status (map_of (sessions d) sid)"

text \<open>The audit log is the sequence of \<open>log_event(category, message, level)\<close> calls.\<close>

type_synonym audit_log = "(string \<times> string \<times> string) list"

text \<open>Two renderings of one clock reading: \<open>isoformat()\<close> and \<open>strftime('%H:%M:%S')\<close>.\<close>

record clock =
  iso :: string
  hms :: string

section \<open>Red team: the module (\<open>red_team.py\<close>)\<close>

text \<open>
  \<open>str.strip()\<close>, for the ASCII characters that Python counts as whitespace.  The
  strings of this model are ASCII: the other Unicode spaces that \<open>strip\<close> removes
  (U+0085, U+00A0 and the like) do not occur in them.
\<close>

definition is_space :: "char \<Rightarrow> bool" where
  "is_space c \<longleftrightarrow>
     c \<in> set [CHR 0x09, CHR 0x0A, CHR 0x0B, CHR 0x0C, CHR 0x0D,
              CHR 0x1C, CHR 0x1D, CHR 0x1E, CHR 0x1F, CHR 0x20]"

definition py_strip :: "string \<Rightarrow> string" where
  "py_strip s = rev (dropWhile is_space (rev (dropWhile is_space s)))"

definition newline :: string where
  "newline = [CHR 0x0A]"

text \<open>
  The widgets the handlers read and write, the thread object, the session identifier,
  the two collaborators, and the message boxes shown.  \<open>results_display\<close> is the list of
  the texts appended to it.  A signal of the thread reaches its slot through the event
  loop of the main thread: \<open>delivered\<close> counts the signals of the current thread that
  the slots have handled.
\<close>

record red_team =
  target_input :: string
  start_port_value :: int
  end_port_value :: int
  timeout_value :: int
  consent_checkbox :: bool
  start_btn :: bool
  stop_btn :: bool
  progress_bar :: int
  results_display :: "string list"
  scanner :: "scanner_thread option"
  delivered :: nat
  current_session_id :: "int option"
  db_manager :: database
  audit_logger :: audit_log
  message_boxes :: "(string \<times> string) list"

definition update_start_button :: "red_team \<Rightarrow> red_team" where
  "update_start_button m =
     m\<lparr>start_btn := (consent_checkbox m \<and> 0 < length (py_strip (target_input m)))\<rparr>"

definition start_scan :: "clock \<Rightarrow> red_team \<Rightarrow> red_team" where
  "start_scan clk m =
     (let tgt = py_strip (target_input m);
          sp = start_port_value m;
          ep = end_port_value m;
          tmo = timeout_value m
      in if ep < sp
         then m\<lparr>message_boxes := message_boxes m @
                 [(''Invalid Range'', ''Start port must be less than or equal to end port!'')]\<rparr>
         else
           let (d, sid) = create_session (db_manager m) ''red_team'' tgt
                            [(''start_port'', sp), (''end_port'', ep)] (iso clk)
           in m\<lparr>results_display := [''['' @ hms clk @ ''] Scanning '' @ tgt @ ''...'' @ newline],
                 progress_bar := 0,
                 current_session_id := Some sid,
                 db_manager := d,
                 audit_logger := audit_logger m @
                   [(''RED_TEAM'',
                     ''Port scan started: '' @ tgt @ '' ports '' @ str_int sp @ ''-'' @ str_int ep,
                     ''INFO'')],
                 scanner := Some (start_thread (new_scanner tgt sp ep (of_int tmo))),
                 delivered := 0,
                 start_btn := False,
                 stop_btn := True\<rparr>)"

text \<open>
  \<open>stop_scan\<close>: when there is a thread and it is running, \<open>stop()\<close> then \<open>wait()\<close>,
  a line in the display and an audit event; the buttons in every case.
\<close>

definition stop_scan :: "network \<Rightarrow> clock \<Rightarrow> red_team \<Rightarrow> red_team" where
  "stop_scan net clk m =
     (let m1 = (case scanner m of
                  None \<Rightarrow> m
                | Some t \<Rightarrow>
                    if alive t
                    then m\<lparr>scanner := Some (run_to_end net (iso clk) (stop t)),
                           results_display := results_display m @
                             [newline @ ''['' @ hms clk @ ''] Scan stopped by user'' @ newline],
                           audit_logger := audit_logger m @
                             [(''RED_TEAM'', ''Port scan stopped by user'', ''WARNING'')]\<rparr>
                    else m)
      in m1\<lparr>start_btn := True, stop_btn := False\<rparr>)"

subsection \<open>The slots\<close>

definition update_progress :: "red_team \<Rightarrow> int \<Rightarrow> red_team" where
  "update_progress m v = m\<lparr>progress_bar := v\<rparr>"

definition display_result :: "clock \<Rightarrow> red_team \<Rightarrow> string \<Rightarrow> int \<Rightarrow> string \<Rightarrow> red_team" where
  "display_result clk m tgt port service =
     (let m1 = m\<lparr>results_display := results_display m @
                  [''[OPEN] '' @ tgt @ '':'' @ str_int port @ '' - '' @ service]\<rparr>
      in case current_session_id m1 of
           None \<Rightarrow> m1
         | Some sid \<Rightarrow>
             if sid = 0 then m1
             else m1\<lparr>db_manager := store_scan_result (db_manager m1) sid port service ''open'' (iso clk)\<rparr>)"

definition scan_finished :: "clock \<Rightarrow> red_team \<Rightarrow> scan_results \<Rightarrow> red_team" where
  "scan_finished clk m res =
     (let n = str_nat (length (res_open_ports res));
          summary =
            newline @ replicate 50 CHR ''='' @ newline
            @ ''Scan Complete!'' @ newline
            @ ''Target: '' @ res_target res @ newline
            @ ''Ports Scanned: '' @ str_int (res_start_port res) @ ''-''
                @ str_int (res_end_port res) @ newline
            @ ''Open Ports Found: '' @ n @ newline
            @ ''Time: '' @ res_scan_time res @ newline
            @ replicate 50 CHR ''='' @ newline;
          m1 = m\<lparr>start_btn := True, stop_btn := False,
                 results_display := results_display m @ [summary]\<rparr>;
          m2 = (case current_session_id m1 of
                  None \<Rightarrow> m1
                | Some sid \<Rightarrow>
                    if sid = 0 then m1
                    else m1\<lparr>db_manager := update_session (db_manager m1) sid res (iso clk)\<rparr>)
      in m2\<lparr>audit_logger := audit_logger m2 @
             [(''RED_TEAM'',
               ''Port scan completed: '' @ res_target res @ '' - '' @ n @ '' open ports'',
               ''INFO'')]\<rparr>)"

definition handle_error :: "red_team \<Rightarrow> string \<Rightarrow> red_team" where
  "handle_error m msg =
     m\<lparr>results_display := results_display m @ [newline @ ''[ERROR] '' @ msg @ newline],
       audit_logger := audit_logger m @ [(''RED_TEAM'', ''Scan error: '' @ msg, ''ERROR'')],
       start_btn := True,
       stop_btn := False\<rparr>"

text \<open>The connections made in \<open>start_scan\<close>: which slot handles which signal.\<close>

fun deliver :: "clock \<Rightarrow> signal \<Rightarrow> red_team \<Rightarrow> red_team" where
  "deliver clk (Progress_update v) m = update_progress m v"
| "deliver clk (Result_update tgt port service) m = display_result clk m tgt port service"
| "deliver clk (Scan_complete res) m = scan_finished clk m res"
| "deliver clk (Error_occurred msg) m = handle_error m msg"

text \<open>The event loop hands every signal not yet handled to its slot, oldest first.\<close>

definition process_events :: "clock \<Rightarrow> red_team \<Rightarrow> red_team" where
  "process_events clk m =
     (case scanner m of
        None \<Rightarrow> m
      | Some t \<Rightarrow>
          (fold (deliver clk) (drop (delivered m) (emitted t)) m)
            \<lparr>delivered := length (emitted t)\<rparr>)"

text \<open>The scheduler lets the thread of the module take one step.\<close>

definition thread_runs :: "network \<Rightarrow> clock \<Rightarrow> red_team \<Rightarrow> red_team" where
  "thread_runs net clk m = m\<lparr>scanner := map_option (thread_step net (iso clk)) (scanner m)\<rparr>"

section \<open>The web interface (\<open>web_ui.py\<close>)\<close>

text \<open>
  A job of the in-memory store is a dictionary with the keys \<open>status\<close>, \<open>progress\<close>,
  \<open>open_ports\<close>, \<open>session_id\<close>, \<open>started_at\<close> and, once the scan has ended,
  \<open>finished_at\<close>.  A worker is a thread running \<open>scan_worker\<close>: its arguments, its
  local variables (the ports of the range not visited yet, \<open>open_ports\<close>,
  \<open>scanned\<close>) and whether it is still running.
\<close>

record job =
  job_status :: string
  job_progress :: int
  job_open_ports :: "int list"
  job_session_id :: int
  job_started_at :: string
  job_finished_at :: "string option"

record worker =
  w_job_id :: string
  w_session_id :: int
  w_target :: string
  w_start_port :: int
  w_end_port :: int
  w_timeout :: rat
  w_open_ports :: "int list"
  w_remaining :: "int list"
  w_scanned :: int
  w_alive :: bool

text \<open>
  The module's globals (\<open>jobs\<close>, \<open>job_counter\<close>, \<open>db\<close>, \<open>logger\<close>) and the
  threads started so far.
\<close>

record web =
  jobs :: "string \<rightharpoonup> job"
  job_counter :: int
  db :: database
  logger :: audit_log
  workers :: "worker list"

definition web_init :: "database \<Rightarrow> web" where
  "web_init d = \<lparr>jobs = Map.empty, job_counter = 0, db = d, logger = [], workers = []\<rparr>"

text \<open>
  The body of a \<open>POST /api/scan\<close> after \<open>int(...)\<close> and \<open>float(...)\<close> have
  converted it and the defaults have been filled in; \<open>target\<close> is absent or a string.
\<close>

record scan_request =
  req_target :: "string option"
  req_start_port :: int
  req_end_port :: int
  req_timeout :: rat

datatype response = Error_response nat string | Job_created string

text \<open>
  The handler is one step of the model.  The code starts the worker thread before it
  writes the line \<open>Port scan started\<close>, so a worker can log before that line is
  written; here the line comes first.
\<close>

definition api_start_scan :: "clock \<Rightarrow> scan_request \<Rightarrow> web \<Rightarrow> web \<times> response" where
  "api_start_scan clk rq s =
     (case req_target rq of
        None \<Rightarrow> (s, Error_response 400 ''target required'')
      | Some tgt \<Rightarrow>
          if tgt = [] then (s, Error_response 400 ''target required'')
          else
            let sp = req_start_port rq;
                ep = req_end_port rq;
                (d, sid) = create_session (db s) ''red_team'' tgt
                             [(''start_port'', sp), (''end_port'', ep)] (iso clk);
                c = job_counter s + 1;
                jid = ''job-'' @ str_int c;
                j = \<lparr>job_status = ''running'', job_progress = 0, job_open_ports = [],
                     job_session_id = sid, job_started_at = iso clk, job_finished_at = None\<rparr>;
                w = \<lparr>w_job_id = jid, w_session_id = sid, w_target = tgt, w_start_port = sp,
                     w_end_port = ep, w_timeout = req_timeout rq, w_open_ports = [],
                     w_remaining = [sp..ep], w_scanned = 0, w_alive = True\<rparr>
            in (s\<lparr>jobs := (jobs s)(jid \<mapsto> j),
                   job_counter := c,
                   db := d,
                   logger := logger s @
                     [(''RED_TEAM'',
                       ''Port scan started: '' @ tgt @ '' ports '' @ str_int sp @ ''-'' @ str_int ep,
                       ''INFO'')],
                   workers := workers s @ [w]\<rparr>,
                Job_created jid))"

text \<open>
  One step of a worker, between two moments at which another thread can run: either
  one iteration of the loop (the probe, then the progress written under the lock), or
  the block after the loop (status, open ports and end time written under one lock,
  then the log line).  An exception, for a socket call, is logged and the loop goes on;
  an exception anywhere else ends the thread.
\<close>

definition worker_probe :: "network \<Rightarrow> clock \<Rightarrow> web \<Rightarrow> worker \<Rightarrow> int \<Rightarrow> web \<times> worker" where
  "worker_probe net clk s w port =
     (case net (w_target w) port of
        Connected result \<Rightarrow>
          if result = 0
          then (s\<lparr>db := store_scan_result (db s) (w_session_id w) port ''unknown'' ''open'' (iso clk)\<rparr>,
                w\<lparr>w_open_ports := w_open_ports w @ [port]\<rparr>)
          else (s, w)
      | Gaierror e \<Rightarrow> (s\<lparr>logger := logger s @ [(''RED_TEAM'', ''Scan error '' @ e, ''ERROR'')]\<rparr>, w)
      | Failed e \<Rightarrow> (s\<lparr>logger := logger s @ [(''RED_TEAM'', ''Scan error '' @ e, ''ERROR'')]\<rparr>, w))"

definition worker_iteration :: "network \<Rightarrow> clock \<Rightarrow> web \<Rightarrow> worker \<Rightarrow> int \<Rightarrow> int list \<Rightarrow> web \<times> worker" where
  "worker_iteration net clk s w port rest =
     (let (s1, w1) = worker_probe net clk s w port;
          w2 = w1\<lparr>w_scanned := w_scanned w1 + 1, w_remaining := rest\<rparr>;
          tot = w_end_port w2 - w_start_port w2 + 1
      in if tot = 0 then (s1, w2\<lparr>w_alive := False\<rparr>)
         else case jobs s1 (w_job_id w2) of
             None \<Rightarrow> (s1, w2\<lparr>w_alive := False\<rparr>)
           | Some j \<Rightarrow>
               (s1\<lparr>jobs := (jobs s1)(w_job_id w2 \<mapsto>
                     j\<lparr>job_progress := progress_of (w_scanned w2) tot\<rparr>)\<rparr>, w2))"

definition worker_completion :: "clock \<Rightarrow> web \<Rightarrow> worker \<Rightarrow> web \<times> worker" where
  "worker_completion clk s w =
     (case jobs s (w_job_id w) of
        None \<Rightarrow> (s, w\<lparr>w_alive := False\<rparr>)
      | Some j \<Rightarrow>
          (s\<lparr>jobs := (jobs s)(w_job_id w \<mapsto>
                 j\<lparr>job_status := ''completed'', job_open_ports := w_open_ports w,
                   job_finished_at := Some (iso clk)\<rparr>),
             logger := logger s @
               [(''RED_TEAM'',
                 ''Port scan completed: '' @ w_target w @ '' - ''
                   @ str_nat (length (w_open_ports w)) @ '' open ports'',
                 ''INFO'')]\<rparr>,
           w\<lparr>w_alive := False\<rparr>))"

definition worker_step :: "network \<Rightarrow> clock \<Rightarrow> nat \<Rightarrow> web \<Rightarrow> web" where
  "worker_step net clk i s =
     (if length (workers s) \<le> i then s
      else
        let w = workers s ! i
        in if \<not> w_alive w then s
           else
             let (s1, w1) = (case w_remaining w of
                               [] \<Rightarrow> worker_completion clk s w
                             | port # rest \<Rightarrow> worker_iteration net clk s w port rest)
             in s1\<lparr>workers := (workers s1)[i := w1]\<rparr>)"

text \<open>\<open>GET /api/scan/<job_id>\<close>: the three fields of the job, read under the lock.\<close>

record job_view =
  view_status :: string
  view_progress :: int
  view_open_ports :: "int list"

definition api_scan_status :: "web \<Rightarrow> string \<Rightarrow> (nat \<times> string) + job_view" where
  "api_scan_status s jid =
     (case jobs s jid of
        None \<Rightarrow> Inl (404, ''job not found'')
      | Some j \<Rightarrow>
          Inr \<lparr>view_status = job_status j, view_progress = job_progress j,
               view_open_ports = job_open_ports j\<rparr>)"

text \<open>
  The states of the web interface: it starts with an empty job store, and then requests
  arrive and workers take steps in any order, against any network and clock.
\<close>

inductive reachable :: "web \<Rightarrow> bool" where
  initial: "reachable (web_init d)"
| request: "reachable s \<Longrightarrow> reachable (fst (api_start_scan clk rq s))"
| progress: "reachable s \<Longrightarrow> reachable (worker_step net clk i s)"

text \<open>A worker left to itself until it ends.\<close>

function worker_runs :: "network \<Rightarrow> clock \<Rightarrow> nat \<Rightarrow> web \<Rightarrow> web" where
  "worker_runs net clk i s =
     (if i < length (workers s) \<and> w_alive (workers s ! i)
      then worker_runs net clk i (worker_step net clk i s)
      else s)"
  by pat_completeness auto
termination
proof (relation "measure (\<lambda>(net, clk, i, s).
    if i < length (workers s) \<and> w_alive (workers s ! i)
    then Suc (length (w_remaining (workers s ! i))) else 0)")
  show "wf (measure (\<lambda>(net, clk, i, s).
    if i < length (workers s) \<and> w_alive (workers s ! i)
    then Suc (length (w_remaining (workers s ! i))) else 0))"
    by simp
next
  fix net :: network and clk :: clock and i :: nat and s :: web
  assume "i < length (workers s) \<and> w_alive (workers s ! i)"
  then show "((net, clk, i, worker_step net clk i s), (net, clk, i, s))
      \<in> measure (\<lambda>(net, clk, i, s).
          if i < length (workers s) \<and> w_alive (workers s ! i)
          then Suc (length (w_remaining (workers s ! i))) else 0)"
    by (auto simp: worker_step_def worker_completion_def worker_iteration_def
        worker_probe_def Let_def
        split: list.splits option.splits probe.splits if_splits prod.splits)
qed

declare worker_runs.simps [simp del]

section \<open>Blue team: the thresholds of a running monitor (\<open>blue_team.py\<close>)\<close>

text \<open>
  A dictionary is an object and a variable holds a reference to it:
  \<open>self.thresholds = thresholds\<close> stores the reference it is given, so the thread and
  its caller can share one dictionary.  The store maps references to dictionaries;
  \<open>next_free\<close> is the first reference not in use.
\<close>

record store =
  objects :: "nat \<Rightarrow> thresholds"
  next_free :: nat

definition alloc :: "store \<Rightarrow> thresholds \<Rightarrow> store \<times> nat" where
  "alloc st d = (st\<lparr>objects := (objects st)(next_free st := d), next_free := next_free st + 1\<rparr>,
                 next_free st)"

text \<open>\<open>d[key] = value\<close> on the dictionary behind a reference.\<close>

definition dict_store :: "store \<Rightarrow> nat \<Rightarrow> string \<Rightarrow> rat \<Rightarrow> store" where
  "dict_store st r key v = st\<lparr>objects := (objects st)(r := (objects st r)(key \<mapsto> v))\<rparr>"

record system_monitor =
  check_interval :: int
  monitor_is_running :: bool
  thresholds_ref :: nat

text \<open>\<open>__init__\<close> builds a new dictionary from three literals.\<close>

definition system_monitor_init :: "store \<Rightarrow> int \<Rightarrow> store \<times> system_monitor" where
  "system_monitor_init st interval =
     (let (st1, r) = alloc st default_thresholds
      in (st1, \<lparr>check_interval = interval, monitor_is_running = True, thresholds_ref = r\<rparr>))"

definition update_thresholds :: "system_monitor \<Rightarrow> nat \<Rightarrow> system_monitor" where
  "update_thresholds mon r = mon\<lparr>thresholds_ref := r\<rparr>"

text \<open>What one tick of the monitor decides for the snapshot \<open>s\<close>.\<close>

definition monitor_check :: "store \<Rightarrow> system_monitor \<Rightarrow> stats \<Rightarrow> alert list \<times> py_error option" where
  "monitor_check st mon s = check_thresholds (objects st (thresholds_ref mon)) s"

section \<open>Blue team: the process monitor (\<open>blue_team.py\<close>)\<close>

text \<open>
  A process of the list built by \<open>scan_processes\<close>.  \<open>psutil\<close> gives \<open>None\<close> for a
  name it is not allowed to read.
\<close>

record process =
  pid :: int
  name :: "string option"
  user :: string
  memory :: "rat option"

text \<open>\<open>str.lower()\<close>, for ASCII letters.\<close>

definition lower_char :: "char \<Rightarrow> char" where
  "lower_char c =
     (case map_of (zip ''ABCDEFGHIJKLMNOPQRSTUVWXYZ'' ''abcdefghijklmnopqrstuvwxyz'') c of
        Some l \<Rightarrow> l
      | None \<Rightarrow> c)"

definition py_lower :: "string \<Rightarrow> string" where
  "py_lower s = map lower_char s"

definition suspicious_keywords :: "string list" where
  "suspicious_keywords = [''hack'', ''crack'', ''exploit'', ''backdoor'', ''keylog'']"

definition is_suspicious :: "string option \<Rightarrow> py_error + bool" where
  "is_suspicious process_name =
     (case process_name of
        None \<Rightarrow>
          Inl (AttributeError ([CHR 0x27] @ ''NoneType'' @ [CHR 0x27]
            @ '' object has no attribute '' @ [CHR 0x27] @ ''lower'' @ [CHR 0x27]))
      | Some n \<Rightarrow> Inr (list_ex (\<lambda>keyword. py_in keyword (py_lower n)) suspicious_keywords))"

text \<open>
  The two nested loops of \<open>detect_new_processes\<close>: for each new identifier, the first
  process of the list that has it (the inner loop breaks there) is tested.  The result
  is the list of \<open>suspicious_process(name, reason)\<close> signals emitted and the exception
  that ended the loops, if any.
\<close>

fun alert_new :: "process list \<Rightarrow> int list \<Rightarrow> (string \<times> string) list \<times> py_error option" where
  "alert_new processes [] = ([], None)"
| "alert_new processes (p # pids) =
     (case find (\<lambda>proc. pid proc = p) processes of
        None \<Rightarrow> alert_new processes pids
      | Some proc \<Rightarrow>
          (case is_suspicious (name proc) of
             Inl e \<Rightarrow> ([], Some e)
           | Inr b \<Rightarrow>
               let (sigs, e) = alert_new processes pids
               in ((if b then [(the (name proc), ''New process detected'')] else []) @ sigs, e)))"

text \<open>
  The set \<open>known_processes\<close> is a list without repetitions; the code tests it for
  emptiness and membership only.  A Python set yields its elements in an order of its
  own: \<open>order\<close> is that order, a parameter of the model.  The third component is the
  value of \<open>known_processes\<close> after the call; an exception leaves it as it was.
\<close>

definition detect_new_processes ::
  "(int list \<Rightarrow> int list) \<Rightarrow> int list \<Rightarrow> process list
     \<Rightarrow> (string \<times> string) list \<times> py_error option \<times> int list" where
  "detect_new_processes order known processes =
     (let current_pids = remdups (map pid processes);
          new_pids = filter (\<lambda>p. p \<notin> set known) current_pids
      in if known \<noteq> [] \<and> new_pids \<noteq> []
         then (case alert_new processes (order new_pids) of
                 (sigs, None) \<Rightarrow> (sigs, None, current_pids)
               | (sigs, Some e) \<Rightarrow> (sigs, Some e, known))
         else ([], None, current_pids))"

text \<open>\<open>handle_suspicious_process\<close> turns the signal into the alert it adds.\<close>

definition handle_suspicious_process :: "string \<Rightarrow> string \<Rightarrow> alert" where
  "handle_suspicious_process process_name reason =
     \<lparr>severity = ''HIGH'', category = ''Process'',
      message = ''Suspicious: '' @ process_name @ '' - '' @ reason\<rparr>"

text \<open>
  The monitor over the process lists of successive ticks, from the value of
  \<open>known_processes\<close> before the first of them (\<open>set()\<close> for a new thread): the alerts
  of each tick.  \<open>run\<close> swallows an exception and goes on to the next tick.
\<close>

fun monitor_ticks :: "(int list \<Rightarrow> int list) \<Rightarrow> int list \<Rightarrow> process list list \<Rightarrow> alert list list" where
  "monitor_ticks order known [] = []"
| "monitor_ticks order known (processes # later) =
     (case detect_new_processes order known processes of
        (sigs, e, known') \<Rightarrow>
          map (\<lambda>(n, r). handle_suspicious_process n r) sigs # monitor_ticks order known' later)"

section \<open>Example inputs\<close>

text \<open>A host that accepts connections on port 22 only; a clock; an empty database.\<close>

definition only_ssh :: network where
  "only_ssh host port = (if port = 22 then Connected 0 else Connected 111)"

definition clock0 :: clock where
  "clock0 = \<lparr>iso = ''2024-01-01T00:00:00'', hms = ''00:00:00''\<rparr>"

definition empty_db :: database where
  "empty_db = \<lparr>next_session_id = 1, sessions = [], scan_rows = []\<rparr>"

text \<open>Two requests to the web interface: a scan of port 22 alone, and a scan with timeout 0.\<close>

definition port_22_request :: scan_request where
  "port_22_request =
     \<lparr>req_target = Some ''host'', req_start_port = 22, req_end_port = 22, req_timeout = 1\<rparr>"

definition zero_timeout_request :: scan_request where
  "zero_timeout_request =
     \<lparr>req_target = Some ''localhost'', req_start_port = 1, req_end_port = 10, req_timeout = 0\<rparr>"

text \<open>A host on which every port refuses the connection; the module before a scan of ports 1 to 3.\<close>

definition all_closed :: network where
  "all_closed host port = Connected 111"

definition example_module :: red_team where
  "example_module =
     \<lparr>target_input = ''host'', start_port_value = 1, end_port_value = 3, timeout_value = 1,
      consent_checkbox = True, start_btn = True, stop_btn = False, progress_bar = 0,
      results_display = [], scanner = None, delivered = 0, current_session_id = None,
      db_manager = empty_db, audit_logger = [], message_boxes = []\<rparr>"

text \<open>The invariant of the job store: a job that is running shows no open port.\<close>

definition running_hides_ports :: "web \<Rightarrow> bool" where
  "running_hides_ports s \<longleftrightarrow>
     (\<forall>jid j. jobs s jid = Some j \<and> job_status j = ''running'' \<longrightarrow> job_open_ports j = [])"

definition ssh_request :: scan_request where
  "ssh_request = \<lparr>req_target = Some ''host'', req_start_port = 22, req_end_port = 23, req_timeout = 1\<rparr>"

text \<open>
  A caller that holds its live configuration in a dictionary of its own (reference 0),
  and the monitor it then starts.
\<close>

definition live_store :: store where
  "live_store = fst (alloc \<lparr>objects = (\<lambda>r. Map.empty), next_free = 0\<rparr> default_thresholds)"

definition started_store :: store where
  "started_store = fst (system_monitor_init live_store 5)"

definition started_monitor :: system_monitor where
  "started_monitor = snd (system_monitor_init live_store 5)"

subsection \<open>The new-process heuristic as the specification words it\<close>

text \<open>
  The identifiers seen on this tick and not on the previous one; whether the process
  that has an identifier carries a suspicious name; and that name.  Where the list has
  several processes with one identifier, the first of them counts, as in the code.
\<close>

definition newly_seen :: "int list \<Rightarrow> process list \<Rightarrow> int list" where
  "newly_seen known processes = filter (\<lambda>p. p \<notin> set known) (remdups (map pid processes))"

definition first_name :: "process list \<Rightarrow> int \<Rightarrow> string" where
  "first_name processes p =
     (case find (\<lambda>proc. pid proc = p) processes of
        Some proc \<Rightarrow> (case name proc of Some n \<Rightarrow> n | None \<Rightarrow> [])
      | None \<Rightarrow> [])"

definition suspicious_pid :: "process list \<Rightarrow> int \<Rightarrow> bool" where
  "suspicious_pid processes p \<longleftrightarrow>
     list_ex (\<lambda>keyword. py_in keyword (py_lower (first_name processes p))) suspicious_keywords"

text \<open>Example processes.\<close>

definition init_process :: process where
  "init_process = \<lparr>pid = 1, name = Some ''init'', user = ''root'', memory = Some 0\<rparr>"

definition keylogger_process :: process where
  "keylogger_process =
     \<lparr>pid = 7, name = Some ''newkeylogger.exe'', user = ''mallory'', memory = Some 1\<rparr>"

definition unnamed_process :: process where
  "unnamed_process = \<lparr>pid = 5, name = None, user = ''N/A'', memory = None\<rparr>"

subsection \<open>What a worker does over a list of ports\<close>

text \<open>\<open>k\<close> steps of one worker, and the closed forms of what they log and store.\<close>

fun worker_steps :: "nat \<Rightarrow> network \<Rightarrow> clock \<Rightarrow> nat \<Rightarrow> web \<Rightarrow> web" where
  "worker_steps 0 net clk i s = s"
| "worker_steps (Suc k) net clk i s = worker_steps k net clk i (worker_step net clk i s)"

fun logged_errors :: "network \<Rightarrow> string \<Rightarrow> int list \<Rightarrow> audit_log" where
  "logged_errors net tgt [] = []"
| "logged_errors net tgt (p # ps) =
     (case net tgt p of
        Connected result \<Rightarrow> []
      | Gaierror e \<Rightarrow> [(''RED_TEAM'', ''Scan error '' @ e, ''ERROR'')]
      | Failed e \<Rightarrow> [(''RED_TEAM'', ''Scan error '' @ e, ''ERROR'')])
     @ logged_errors net tgt ps"

definition stored_rows :: "network \<Rightarrow> clock \<Rightarrow> worker \<Rightarrow> int list \<Rightarrow> scan_row list" where
  "stored_rows net clk w ps =
     map (\<lambda>p. \<lparr>row_session_id = w_session_id w, row_timestamp = iso clk, row_port = p,
               row_service = ''unknown'', row_status = ''open'', row_details = None\<rparr>)
       (filter (\<lambda>p. net (w_target w) p = Connected 0) ps)"

subsection \<open>The progress formula as the specification words it\<close>

text \<open>\<open>floor(scanned / total \<times> 100)\<close>, computed exactly.\<close>

definition spec_progress :: "int \<Rightarrow> int \<Rightarrow> int" where
  "spec_progress n tot = \<lfloor>(of_int n :: rat) / of_int tot * 100\<rfloor>"

text \<open>A target whose name cannot be resolved: every probe ends in \<open>socket.gaierror\<close>.\<close>

definition unresolved :: network where
  "unresolved host port = Gaierror ''[Errno -2] Name or service not known''"

text \<open>The scheduler lets the thread of the module run until it ends.\<close>

definition thread_finishes :: "network \<Rightarrow> clock \<Rightarrow> red_team \<Rightarrow> red_team" where
  "thread_finishes net clk m = m\<lparr>scanner := map_option (run_to_end net (iso clk)) (scanner m)\<rparr>"

section \<open>Properties\<close>

subsection \<open>Strings\<close>

lemma starts_with_iff: "starts_with k s \<longleftrightarrow> (\<exists>r. s = k @ r)"
  by (induction k s rule: starts_with.induct) auto

lemma py_in_iff: "py_in k s \<longleftrightarrow> (\<exists>p r. s = p @ k @ r)"
proof (induction s)
  case Nil
  then show ?case by auto
next
  case (Cons y ys)
  show ?case
  proof
    assume "py_in k (y # ys)"
    then consider "starts_with k (y # ys)" | "py_in k ys" by auto
    then show "\<exists>p r. y # ys = p @ k @ r"
    proof cases
      case 1
      then obtain r where "y # ys = k @ r" by (auto simp: starts_with_iff)
      then have "y # ys = [] @ k @ r" by simp
      then show ?thesis by blast
    next
      case 2
      then obtain p r where "ys = p @ k @ r" using Cons.IH by auto
      then have "y # ys = (y # p) @ k @ r" by simp
      then show ?thesis by blast
    qed
  next
    assume "\<exists>p r. y # ys = p @ k @ r"
    then obtain p r where e: "y # ys = p @ k @ r" by blast
    show "py_in k (y # ys)"
    proof (cases p)
      case Nil
      with e have "starts_with k (y # ys)" by (auto simp: starts_with_iff)
      then show ?thesis by simp
    next
      case (Cons a p')
      with e have "ys = p' @ k @ r" by simp
      then have "py_in k ys" using Cons.IH by blast
      then show ?thesis by simp
    qed
  qed
qed

lemma py_in_mid: "py_in k (p @ k @ r)"
  unfolding py_in_iff by blast

subsection \<open>The threshold evaluator\<close>

lemma alert_for_cpu: "alert_for s CPU (cpu_alert s)"
proof -
  have "py_in (fmt_1f (cpu_percent s)) (''CPU usage critical: '' @ fmt_1f (cpu_percent s) @ ''%'')"
    by (rule py_in_mid)
  then show ?thesis
    by (simp add: alert_for_def cpu_alert_def del: py_in.simps)
qed

lemma alert_for_memory: "alert_for s Memory (memory_alert s)"
proof -
  have "py_in (fmt_1f (memory_percent s)) (''Memory usage critical: '' @ fmt_1f (memory_percent s) @ ''%'')"
    by (rule py_in_mid)
  then show ?thesis
    by (simp add: alert_for_def memory_alert_def del: py_in.simps)
qed

lemma alert_for_disk: "alert_for s Disk (disk_alert s)"
proof -
  have "py_in (fmt_1f (disk_percent s)) (''Disk usage critical: '' @ fmt_1f (disk_percent s) @ ''%'')"
    by (rule py_in_mid)
  then show ?thesis
    by (simp add: alert_for_def disk_alert_def del: py_in.simps)
qed

text \<open>
  Claim C5.  Whenever the three thresholds are present, \<open>check_thresholds\<close> raises
  nothing and emits, in the order CPU, Memory, Disk, exactly one alert for each metric
  whose value is strictly above its threshold and none for the others (so simultaneous
  breaches are not merged): the alert has severity HIGH for CPU and Memory and CRITICAL
  for Disk, the metric's category, and a message that contains the value rendered with
  one decimal place.  In particular cpu = 95.0, memory = 50.0, disk = 50.0 against the
  thresholds 80, 85, 90 gives exactly one alert, of severity HIGH and category CPU.
\<close>

theorem check_thresholds_one_alert_per_breach:
  "(th ''cpu_percent'' \<noteq> None \<and> th ''memory_percent'' \<noteq> None \<and> th ''disk_percent'' \<noteq> None \<longrightarrow>
      snd (check_thresholds th s) = None \<and>
      list_all2 (alert_for s) (filter (breaches th s) [CPU, Memory, Disk])
        (fst (check_thresholds th s))) \<and>
   check_thresholds default_thresholds example_stats =
     ([\<lparr>severity = ''HIGH'', category = ''CPU'', message = ''CPU usage critical: 95.0%''\<rparr>], None)"
proof (intro conjI impI)
  assume "th ''cpu_percent'' \<noteq> None \<and> th ''memory_percent'' \<noteq> None \<and> th ''disk_percent'' \<noteq> None"
  then obtain c m d where k: "th ''cpu_percent'' = Some c" "th ''memory_percent'' = Some m"
    "th ''disk_percent'' = Some d" by auto
  show "snd (check_thresholds th s) = None"
    using k by (simp add: check_thresholds_def Let_def)
  show "list_all2 (alert_for s) (filter (breaches th s) [CPU, Memory, Disk])
        (fst (check_thresholds th s))"
    using k by (simp add: check_thresholds_def Let_def breaches_def
        alert_for_cpu alert_for_memory alert_for_disk)
next
  show "check_thresholds default_thresholds example_stats =
     ([\<lparr>severity = ''HIGH'', category = ''CPU'', message = ''CPU usage critical: 95.0%''\<rparr>], None)"
    by (simp add: check_thresholds_def default_thresholds_def example_stats_def cpu_alert_def
        fmt_1f_def fmt_1f_abs_def round_half_even_def str_nat.simps digit_char_def)
qed

theorem check_thresholds_one_alert_per_breach_witness:
  "default_thresholds ''cpu_percent'' \<noteq> None \<and> default_thresholds ''memory_percent'' \<noteq> None \<and>
   default_thresholds ''disk_percent'' \<noteq> None \<and>
   filter (breaches default_thresholds example_stats) [CPU, Memory, Disk] = [CPU] \<and>
   list_all2 (alert_for example_stats) [CPU]
     (fst (check_thresholds default_thresholds example_stats))"
proof -
  have h: "default_thresholds ''cpu_percent'' \<noteq> None \<and>
      default_thresholds ''memory_percent'' \<noteq> None \<and>
      default_thresholds ''disk_percent'' \<noteq> None"
    by (simp add: default_thresholds_def)
  have f: "filter (breaches default_thresholds example_stats) [CPU, Memory, Disk] = [CPU]"
    by (simp add: breaches_def default_thresholds_def example_stats_def)
  from check_thresholds_one_alert_per_breach [of default_thresholds example_stats] h
  have "list_all2 (alert_for example_stats)
      (filter (breaches default_thresholds example_stats) [CPU, Memory, Disk])
      (fst (check_thresholds default_thresholds example_stats))"
    by blast
  then have "list_all2 (alert_for example_stats) [CPU]
      (fst (check_thresholds default_thresholds example_stats))"
    by (simp only: f)
  with h f show ?thesis by blast
qed


subsection \<open>Binary64 rounding\<close>

lemma pow2_bitlen:
  fixes n :: int
  assumes "0 < n"
  shows "(2::rat) powi (int (floorlog 2 (nat n)) - 1) \<le> of_int n \<and> of_int n < (2::rat) powi (int (floorlog 2 (nat n)))"
proof -
  let ?b = "floorlog 2 (nat n)"
  have pos: "0 < nat n" using assms by simp
  have b: "2 ^ (?b - 1) \<le> nat n \<and> nat n < 2 ^ ?b"
    using floorlog_bounds [OF pos, of 2] by simp
  have b1: "1 \<le> ?b" using pos by (simp add: floorlog_def)
  have "(2::rat) powi (int ?b - 1) = 2 ^ (?b - 1)"
    using b1 by (metis of_nat_1 of_nat_diff power_int_of_nat)
  moreover have "(2::rat) ^ (?b - 1) \<le> of_nat (nat n)"
    using b by (metis of_nat_le_iff of_nat_numeral of_nat_power)
  moreover have "(of_nat (nat n) :: rat) < 2 ^ ?b"
    using b by (metis of_nat_less_iff of_nat_numeral of_nat_power)
  moreover have "(of_nat (nat n) :: rat) = of_int n" using assms by simp
  ultimately show ?thesis by (simp add: power_int_of_nat)
qed

lemma ilog2_bounds:
  assumes "0 < q"
  shows "2 powi (ilog2 q) \<le> q \<and> q < 2 powi (ilog2 q + 1)"
proof -
  obtain n d where nd: "quotient_of q = (n, d)" by (cases "quotient_of q")
  have d: "0 < d" using nd by (rule quotient_of_denom_pos)
  have q: "q = of_int n / of_int d" using nd by (rule quotient_of_div)
  have n: "0 < n" using assms d q by (simp add: zero_less_divide_iff)
  let ?bn = "int (floorlog 2 (nat n))" and ?bd = "int (floorlog 2 (nat d))"
  let ?a = "?bn - ?bd"
  from pow2_bitlen [OF n] have n1: "(2::rat) powi (?bn - 1) \<le> of_int n" and n2: "of_int n < (2::rat) powi ?bn" by auto
  from pow2_bitlen [OF d] have d1: "(2::rat) powi (?bd - 1) \<le> of_int d" and d2: "of_int d < (2::rat) powi ?bd" by auto
  have dpos: "(0::rat) < of_int d" using d by simp
  have up: "q < 2 powi (?a + 1)"
  proof -
    have "q * of_int d = of_int n" using q dpos by simp
    also have "\<dots> < (2::rat) powi ?bn" by (rule n2)
    also have "\<dots> = 2 powi (?a + 1) * 2 powi (?bd - 1)"
      using power_int_add [of "2::rat" "?a + 1" "?bd - 1"] by simp
    also have "\<dots> \<le> 2 powi (?a + 1) * of_int d"
      using d1 by (simp add: mult_left_mono)
    finally show ?thesis using dpos by simp
  qed
  have lo: "2 powi (?a - 1) \<le> q"
  proof -
    have "2 powi (?a - 1) * of_int d \<le> 2 powi (?a - 1) * (2::rat) powi ?bd"
      using d2 by (simp add: mult_left_mono)
    also have "\<dots> = 2 powi (?bn - 1)"
      using power_int_add [of "2::rat" "?a - 1" "?bd"] by simp
    also have "\<dots> \<le> of_int n" by (rule n1)
    also have "\<dots> = q * of_int d" using q dpos by simp
    finally show ?thesis using dpos by simp
  qed
  have il: "ilog2 q = (if 2 powi ?a \<le> q then ?a else ?a - 1)"
    by (simp add: ilog2_def nd Let_def)
  show ?thesis
  proof (cases "2 powi ?a \<le> q")
    case True
    then show ?thesis using il up by simp
  next
    case False
    then show ?thesis using il lo by simp
  qed
qed

lemma ilog2_unique:
  assumes "0 < q" "2 powi e \<le> q" "q < 2 powi (e + 1)"
  shows "ilog2 q = e"
proof -
  from ilog2_bounds [OF assms(1)] have b: "2 powi (ilog2 q) \<le> q" "q < 2 powi (ilog2 q + 1)" by auto
  have "(2::rat) powi e < 2 powi (ilog2 q + 1)" using assms(2) b(2) by linarith
  then have 1: "e < ilog2 q + 1"
    using power_int_increasing [of "ilog2 q + 1" e "2::rat"] by (cases "e < ilog2 q + 1") auto
  have "(2::rat) powi (ilog2 q) < 2 powi (e + 1)" using assms(3) b(1) by linarith
  then have 2: "ilog2 q < e + 1"
    using power_int_increasing [of "e + 1" "ilog2 q" "2::rat"] by (cases "ilog2 q < e + 1") auto
  from 1 2 show ?thesis by simp
qed

lemma rhe_of_int: "round_half_even (of_int n) = n"
  by (simp add: round_half_even_def)

lemma rhe_cases:
  "round_half_even q = \<lfloor>q\<rfloor> \<or> round_half_even q = \<lfloor>q\<rfloor> + 1"
  by (simp add: round_half_even_def Let_def)

lemma rhe_mono:
  assumes "x \<le> y"
  shows "round_half_even x \<le> round_half_even y"
proof -
  have f: "\<lfloor>x\<rfloor> \<le> \<lfloor>y\<rfloor>" using assms by (rule floor_mono)
  show ?thesis
  proof (cases "\<lfloor>x\<rfloor> = \<lfloor>y\<rfloor>")
    case True
    have "x - of_int \<lfloor>x\<rfloor> \<le> y - of_int \<lfloor>y\<rfloor>" using assms True by simp
    then show ?thesis using True
      by (auto simp: round_half_even_def Let_def)
  next
    case False
    then have "\<lfloor>x\<rfloor> + 1 \<le> \<lfloor>y\<rfloor>" using f by simp
    moreover have "round_half_even x \<le> \<lfloor>x\<rfloor> + 1" using rhe_cases [of x] by auto
    moreover have "\<lfloor>y\<rfloor> \<le> round_half_even y" using rhe_cases [of y] by auto
    ultimately show ?thesis by linarith
  qed
qed

lemma rhe_unique:
  assumes "\<bar>q - of_int n\<bar> < 1 / 2"
  shows "round_half_even q = n"
proof (cases "of_int n \<le> q")
  case True
  then have "\<lfloor>q\<rfloor> = n" using assms by (intro floor_unique) auto
  then show ?thesis using assms True by (auto simp: round_half_even_def Let_def)
next
  case False
  then have "\<lfloor>q\<rfloor> = n - 1" using assms by (intro floor_unique) auto
  then show ?thesis using assms False by (auto simp: round_half_even_def Let_def)
qed

lemma fl_pos_eval:
  assumes "0 < q" "2 powi e \<le> q" "q < 2 powi (e + 1)"
    and "\<bar>q / 2 powi (e - 52) - of_int m\<bar> < 1 / 2"
  shows "fl_pos q = of_int m * 2 powi (e - 52)"
  using ilog2_unique [OF assms(1-3)] rhe_unique [OF assms(4)]
  by (simp add: fl_pos_def Let_def)

lemma fl_pos_range:
  assumes "0 < q"
  shows "2 powi (ilog2 q) \<le> fl_pos q \<and> fl_pos q \<le> 2 powi (ilog2 q + 1)"
proof -
  let ?e = "ilog2 q"
  let ?u = "(2::rat) powi (?e - 52)"
  have u: "0 < ?u" by (simp add: power_int_def)
  from ilog2_bounds [OF assms] have b: "2 powi ?e \<le> q" "q < 2 powi (?e + 1)" by auto
  have lo_eq: "(2::rat) powi ?e = of_int (2 ^ 52) * ?u"
    using power_int_add [of "2::rat" 52 "?e - 52"] by simp
  have hi_eq: "(2::rat) powi (?e + 1) = of_int (2 ^ 53) * ?u"
    using power_int_add [of "2::rat" 53 "?e - 52"] by (simp add: add.commute)
  have "of_int (2 ^ 52) \<le> q / ?u" using b(1) u lo_eq by (simp add: pos_le_divide_eq)
  then have "round_half_even (of_int (2 ^ 52)) \<le> round_half_even (q / ?u)" by (rule rhe_mono)
  then have 1: "2 ^ 52 \<le> round_half_even (q / ?u)" by (simp only: rhe_of_int)
  have "q / ?u \<le> of_int (2 ^ 53)" using b(2) u hi_eq by (simp add: pos_divide_le_eq)
  then have "round_half_even (q / ?u) \<le> round_half_even (of_int (2 ^ 53))" by (rule rhe_mono)
  then have 2: "round_half_even (q / ?u) \<le> 2 ^ 53" by (simp only: rhe_of_int)
  have f: "fl_pos q = of_int (round_half_even (q / ?u)) * ?u" by (simp add: fl_pos_def Let_def)
  have "of_int (2 ^ 52) * ?u \<le> of_int (round_half_even (q / ?u)) * ?u"
  proof (rule mult_right_mono)
    show "(of_int (2 ^ 52) :: rat) \<le> of_int (round_half_even (q / ?u))"
      using 1 by (simp only: of_int_le_iff)
    show "0 \<le> ?u" using u by simp
  qed
  moreover have "of_int (round_half_even (q / ?u)) * ?u \<le> of_int (2 ^ 53) * ?u"
  proof (rule mult_right_mono)
    show "(of_int (round_half_even (q / ?u)) :: rat) \<le> of_int (2 ^ 53)"
      using 2 by (simp only: of_int_le_iff)
    show "0 \<le> ?u" using u by simp
  qed
  ultimately show ?thesis unfolding f lo_eq hi_eq by blast
qed

lemma ilog2_mono:
  assumes "0 < x" "x \<le> y"
  shows "ilog2 x \<le> ilog2 y"
proof (rule ccontr)
  assume "\<not> ilog2 x \<le> ilog2 y"
  then have "ilog2 y + 1 \<le> ilog2 x" by simp
  then have "(2::rat) powi (ilog2 y + 1) \<le> 2 powi (ilog2 x)"
    by (intro power_int_increasing) simp_all
  moreover have "2 powi (ilog2 x) \<le> x" using ilog2_bounds [OF assms(1)] by simp
  moreover have "y < 2 powi (ilog2 y + 1)" using ilog2_bounds [of y] assms by simp
  ultimately show False using assms(2) by linarith
qed

lemma fl_pos_mono:
  assumes "0 < x" "x \<le> y"
  shows "fl_pos x \<le> fl_pos y"
proof (cases "ilog2 x = ilog2 y")
  case True
  let ?u = "(2::rat) powi (ilog2 y - 52)"
  have u: "0 < ?u" by (simp add: power_int_def)
  have "x / ?u \<le> y / ?u" using assms(2) u by (simp add: divide_right_mono)
  then have "round_half_even (x / ?u) \<le> round_half_even (y / ?u)" by (rule rhe_mono)
  then have "of_int (round_half_even (x / ?u)) * ?u \<le> of_int (round_half_even (y / ?u)) * ?u"
    using u by (intro mult_right_mono) simp_all
  then show ?thesis by (simp add: fl_pos_def Let_def True)
next
  case False
  have y: "0 < y" using assms by simp
  have "ilog2 x + 1 \<le> ilog2 y" using False ilog2_mono [OF assms] by simp
  then have "(2::rat) powi (ilog2 x + 1) \<le> 2 powi (ilog2 y)"
    by (intro power_int_increasing) simp_all
  moreover have "fl_pos x \<le> 2 powi (ilog2 x + 1)" using fl_pos_range [OF assms(1)] by simp
  moreover have "2 powi (ilog2 y) \<le> fl_pos y" using fl_pos_range [OF y] by simp
  ultimately show ?thesis by linarith
qed

lemma fl_pos_pos: "0 < q \<Longrightarrow> 0 < fl_pos q"
proof -
  assume q: "0 < q"
  have "(0::rat) < 2 powi (ilog2 q)" by (simp add: power_int_def)
  then show ?thesis using fl_pos_range [OF q] by linarith
qed

lemma fl_mono:
  assumes "x \<le> y"
  shows "fl x \<le> fl y"
proof -
  consider "0 < x" | "x \<le> 0" "0 \<le> y" | "y < 0" by linarith
  then show ?thesis
  proof cases
    case 1
    then show ?thesis using assms fl_pos_mono [of x y] by (simp add: fl_def)
  next
    case 2
    have "fl x \<le> 0" using 2(1) fl_pos_pos [of "- x"] by (auto simp: fl_def)
    moreover have "0 \<le> fl y" using 2(2) fl_pos_pos [of y] by (auto simp: fl_def less_eq_rat_def)
    ultimately show ?thesis by linarith
  next
    case 3
    then have "0 < - y" "- y \<le> - x" using assms by simp_all
    then have "fl_pos (- y) \<le> fl_pos (- x)" by (rule fl_pos_mono)
    then show ?thesis using 3 assms by (simp add: fl_def)
  qed
qed


subsection \<open>The progress formula\<close>

lemma py_int_mono: "x \<le> y \<Longrightarrow> py_int x \<le> py_int y"
proof -
  assume a: "x \<le> y"
  consider "0 \<le> x" | "x < 0" "y < 0" | "x < 0" "0 \<le> y" by linarith
  then show ?thesis
  proof cases
    case 1
    then show ?thesis using a by (simp add: py_int_def floor_mono)
  next
    case 2
    then show ?thesis using a by (simp add: py_int_def ceiling_mono)
  next
    case 3
    have "\<lceil>x\<rceil> \<le> 0" using 3(1) by (simp add: ceiling_le_iff)
    moreover have "0 \<le> \<lfloor>y\<rfloor>" using 3(2) by simp
    ultimately have "\<lceil>x\<rceil> \<le> \<lfloor>y\<rfloor>" by linarith
    then show ?thesis using 3 by (simp add: py_int_def)
  qed
qed

lemma progress_of_mono:
  assumes "0 < tot" "n \<le> m"
  shows "progress_of n tot \<le> progress_of m tot"
proof -
  have "(of_int n :: rat) / of_int tot \<le> of_int m / of_int tot"
    using assms by (simp add: divide_right_mono)
  then have "fl (of_int n / of_int tot) \<le> fl (of_int m / of_int tot)" by (rule fl_mono)
  then have "fl (of_int n / of_int tot) * 100 \<le> fl (of_int m / of_int tot) * 100" by simp
  then have "fl (fl (of_int n / of_int tot) * 100) \<le> fl (fl (of_int m / of_int tot) * 100)"
    by (rule fl_mono)
  then show ?thesis unfolding progress_of_def by (rule py_int_mono)
qed

lemma fl_one: "fl 1 = 1"
proof -
  have "fl_pos 1 = of_int (2 ^ 52) * 2 powi (0 - 52)"
    by (rule fl_pos_eval) simp_all
  then show ?thesis by (simp add: fl_def)
qed

lemma fl_hundred: "fl 100 = 100"
proof -
  have "fl_pos 100 = of_int (100 * 2 ^ 46) * 2 powi (6 - 52)"
    by (rule fl_pos_eval) simp_all
  then show ?thesis by (simp add: fl_def)
qed

lemma progress_of_full:
  assumes "0 < tot"
  shows "progress_of tot tot = 100"
proof -
  have "(of_int tot :: rat) / of_int tot = 1" using assms by simp
  then show ?thesis by (simp add: progress_of_def fl_one fl_hundred py_int_def)
qed

lemma fl_29_100: "fl (29 / 100) = 5224175567749775 / 18014398509481984"
proof -
  have "fl_pos (29 / 100) = of_int 5224175567749775 * 2 powi (- 2 - 52)"
    by (rule fl_pos_eval) simp_all
  then show ?thesis by (simp add: fl_def)
qed

lemma fl_29_100_times: "fl (fl (29 / 100) * 100) = 8162774324609023 / 281474976710656"
proof -
  have e: "fl (29 / 100) * 100 = 130604389193744375 / 4503599627370496"
    by (simp add: fl_29_100)
  have "fl_pos (130604389193744375 / 4503599627370496) = of_int 8162774324609023 * 2 powi (4 - 52)"
    by (rule fl_pos_eval) simp_all
  then show ?thesis unfolding e by (simp add: fl_def)
qed

lemma progress_29_100: "progress_of 29 100 = 28"
proof -
  have "(of_int 29 :: rat) / of_int 100 = 29 / 100" by simp
  then have "progress_of 29 100 = py_int (fl (fl (29 / 100) * 100))"
    by (simp only: progress_of_def)
  moreover have "\<lfloor>8162774324609023 / 281474976710656 :: rat\<rfloor> = 28"
    by (rule floor_unique) simp_all
  ultimately show ?thesis by (simp add: fl_29_100_times py_int_def)
qed


subsection \<open>The progress formula against the exact floor\<close>

lemma rhe_error: "\<bar>of_int (round_half_even q) - q\<bar> \<le> 1 / 2"
proof -
  have "of_int \<lfloor>q\<rfloor> \<le> q" "q < of_int \<lfloor>q\<rfloor> + 1" by linarith+
  then show ?thesis by (auto simp: round_half_even_def Let_def)
qed

lemma fl_pos_error:
  assumes "0 < q"
  shows "\<bar>fl_pos q - q\<bar> \<le> q / 2 ^ 53"
proof -
  let ?e = "ilog2 q"
  let ?u = "(2::rat) powi (?e - 52)"
  let ?r = "round_half_even (q / ?u)"
  have u: "0 < ?u" by (simp add: power_int_def)
  have f: "fl_pos q = of_int ?r * ?u" by (simp add: fl_pos_def Let_def)
  have "\<bar>of_int ?r - q / ?u\<bar> \<le> 1 / 2" by (rule rhe_error)
  then have "\<bar>of_int ?r - q / ?u\<bar> * ?u \<le> (1 / 2) * ?u"
    using u by (intro mult_right_mono) simp_all
  moreover have "\<bar>of_int ?r - q / ?u\<bar> * ?u = \<bar>of_int ?r * ?u - q\<bar>"
  proof -
    have "\<bar>of_int ?r - q / ?u\<bar> * ?u = \<bar>(of_int ?r - q / ?u) * ?u\<bar>"
      using u by (simp add: abs_mult)
    also have "(of_int ?r - q / ?u) * ?u = of_int ?r * ?u - q"
      using u by (simp add: algebra_simps)
    finally show ?thesis .
  qed
  ultimately have 1: "\<bar>fl_pos q - q\<bar> \<le> ?u / 2" by (simp add: f)
  have "(2::rat) powi ?e = 2 ^ 52 * ?u"
    using power_int_add [of "2::rat" 52 "?e - 52"] by simp
  moreover have "2 powi ?e \<le> q" using ilog2_bounds [OF assms] by simp
  ultimately have "2 ^ 52 * ?u \<le> q" by simp
  then have "?u / 2 \<le> q / 2 ^ 53" by simp
  with 1 show ?thesis by linarith
qed

lemma fl_error:
  assumes "0 < q"
  shows "q - q / 2 ^ 53 \<le> fl q" "fl q \<le> q + q / 2 ^ 53"
proof -
  have e: "\<bar>fl_pos q - q\<bar> \<le> q / 2 ^ 53" using assms by (rule fl_pos_error)
  have f: "fl q = fl_pos q" using assms by (simp add: fl_def)
  show "q - q / 2 ^ 53 \<le> fl q" unfolding f using e by linarith
  show "fl q \<le> q + q / 2 ^ 53" unfolding f using e by linarith
qed

lemma fl_positive: "0 < q \<Longrightarrow> 0 < fl q"
  using fl_pos_pos [of q] by (simp add: fl_def)

text \<open>
  The two roundings of the progress formula move the product by at most
  \<open>400 \<times> 2\<^sup>-\<^sup>5\<^sup>3\<close>.
\<close>

lemma progress_float_error:
  assumes "0 < n" "n \<le> tot"
  shows "0 < fl (fl (of_int n / of_int tot) * 100)"
    and "\<bar>fl (fl (of_int n / of_int tot) * 100) - of_int n / of_int tot * 100\<bar> \<le> 400 / 2 ^ 53"
proof -
  let ?x = "(of_int n :: rat) / of_int tot"
  let ?a = "fl ?x"
  let ?b = "fl (?a * 100)"
  let ?eps = "(1::rat) / 2 ^ 53"
  have tot: "0 < tot" using assms by simp
  have x0: "0 < ?x" using assms tot by simp
  have x1: "?x \<le> 1" using assms tot by simp
  have a0: "0 < ?a" using x0 by (rule fl_positive)
  have a_lo: "?x - ?x * ?eps \<le> ?a" and a_hi: "?a \<le> ?x + ?x * ?eps"
    using fl_error [OF x0] by simp_all
  have y0: "0 < ?a * 100" using a0 by simp
  show b0: "0 < ?b" using y0 by (rule fl_positive)
  have b_lo: "?a * 100 - ?a * 100 * ?eps \<le> ?b" and b_hi: "?b \<le> ?a * 100 + ?a * 100 * ?eps"
    using fl_error [OF y0] by simp_all
  have a2: "?a \<le> 2" using a_hi x1 by simp
  have xe: "?x * ?eps * 100 \<le> 1 * ?eps * 100" using x1 by (intro mult_right_mono) simp_all
  have ae: "?a * 100 * ?eps \<le> 2 * 100 * ?eps" using a2 by (intro mult_right_mono) simp_all
  have "?x * 100 - ?a * 100 \<le> ?x * ?eps * 100" using a_lo by simp
  with xe have 1: "?x * 100 - ?a * 100 \<le> 100 * ?eps" by simp
  have "?a * 100 - ?x * 100 \<le> ?x * ?eps * 100" using a_hi by simp
  with xe have 2: "?a * 100 - ?x * 100 \<le> 100 * ?eps" by simp
  from 1 ae b_lo have lo: "?x * 100 - ?b \<le> 300 * ?eps" by simp
  from 2 ae b_hi have hi: "?b - ?x * 100 \<le> 300 * ?eps" by simp
  have e: "300 * ?eps \<le> 400 / 2 ^ 53" by simp
  from lo hi e show "\<bar>?b - ?x * 100\<bar> \<le> 400 / 2 ^ 53" by linarith
qed

text \<open>
  The exact product is its floor plus a multiple of \<open>1 / total\<close>, which is the
  remainder of the division of \<open>scanned \<times> 100\<close> by \<open>total\<close>.
\<close>

lemma spec_progress_div: "spec_progress n tot = (n * 100) div tot"
proof -
  have "\<lfloor>(of_int (n * 100) :: rat) / of_int tot\<rfloor> = (n * 100) div tot"
    by (rule floor_divide_of_int_eq)
  then show ?thesis by (simp add: spec_progress_def)
qed

lemma exact_product:
  assumes "0 < tot"
  shows "(of_int n :: rat) / of_int tot * 100 =
     of_int (spec_progress n tot) + of_int ((n * 100) mod tot) / of_int tot"
proof -
  have "n * 100 = spec_progress n tot * tot + (n * 100) mod tot"
    unfolding spec_progress_div by simp
  then have "(of_int (n * 100) :: rat) = of_int (spec_progress n tot * tot + (n * 100) mod tot)"
    by (simp only:)
  then have "(of_int (n * 100) :: rat) / of_int tot =
      of_int (spec_progress n tot * tot + (n * 100) mod tot) / of_int tot"
    by (simp only:)
  also have "\<dots> = of_int (spec_progress n tot) + of_int ((n * 100) mod tot) / of_int tot"
    using assms by (simp add: field_simps)
  finally show ?thesis by simp
qed

lemma small_total:
  assumes "0 < tot" "tot \<le> 2 ^ 44"
  shows "(400::rat) / 2 ^ 53 < 1 / of_int tot"
proof -
  have "(of_int tot :: rat) \<le> 2 ^ 44"
    using assms(2) by (metis of_int_le_iff of_int_numeral of_int_power)
  then have "1 / 2 ^ 44 \<le> 1 / (of_int tot :: rat)" using assms(1) by (simp add: field_simps)
  moreover have "(400::rat) / 2 ^ 53 < 1 / 2 ^ 44" by simp
  ultimately show ?thesis by linarith
qed

text \<open>
  The progress the code computes against the exact floor: never above it, at most one
  below it, and equal to it whenever the exact product is not a whole number.
\<close>

lemma progress_of_near_floor:
  assumes "0 < n" "n \<le> tot" "tot \<le> 2 ^ 44"
  shows "spec_progress n tot - 1 \<le> progress_of n tot"
    and "progress_of n tot \<le> spec_progress n tot"
    and "(n * 100) mod tot \<noteq> 0 \<Longrightarrow> progress_of n tot = spec_progress n tot"
proof -
  let ?x = "(of_int n :: rat) / of_int tot"
  let ?b = "fl (fl ?x * 100)"
  let ?q = "spec_progress n tot"
  let ?r = "(n * 100) mod tot"
  have tot: "0 < tot" using assms by simp
  note b0 = progress_float_error(1) [OF assms(1,2)]
  note be = progress_float_error(2) [OF assms(1,2)]
  note st = small_total [OF tot assms(3)]
  have p: "progress_of n tot = \<lfloor>?b\<rfloor>" using b0 by (simp add: progress_of_def py_int_def)
  have x: "?x * 100 = of_int ?q + of_int ?r / of_int tot" using tot by (rule exact_product)
  have r0: "0 \<le> ?r" and r1: "?r \<le> tot - 1" using tot by simp_all
  have rt0: "0 \<le> (of_int ?r :: rat) / of_int tot" using r0 tot by simp
  have "(of_int ?r :: rat) \<le> of_int (tot - 1)" using r1 by (simp only: of_int_le_iff)
  then have "(of_int ?r :: rat) / of_int tot \<le> of_int (tot - 1) / of_int tot"
    using tot by (simp add: divide_right_mono)
  also have "\<dots> = 1 - 1 / of_int tot" using tot by (simp add: field_simps)
  finally have rt1: "(of_int ?r :: rat) / of_int tot \<le> 1 - 1 / of_int tot" .
  have one: "(400::rat) / 2 ^ 53 < 1" by simp
  have q1: "(of_int (?q - 1) :: rat) = of_int ?q - 1" and q2: "(of_int (?q + 1) :: rat) = of_int ?q + 1"
    by simp_all
  from be x rt0 one have "of_int (?q - 1) \<le> ?b" unfolding q1 by linarith
  then have "?q - 1 \<le> \<lfloor>?b\<rfloor>" by (simp only: le_floor_iff)
  then show "spec_progress n tot - 1 \<le> progress_of n tot" by (simp add: p)
  from be x rt1 st have "?b < of_int (?q + 1)" unfolding q2 by linarith
  then have "\<lfloor>?b\<rfloor> < ?q + 1" by (simp only: floor_less_iff)
  then show le: "progress_of n tot \<le> spec_progress n tot" by (simp add: p)
  assume "?r \<noteq> 0"
  with r0 have "1 \<le> ?r" by simp
  then have "(of_int 1 :: rat) \<le> of_int ?r" by (simp only: of_int_le_iff)
  then have "(1::rat) \<le> of_int ?r" by simp
  then have "(1::rat) / of_int tot \<le> of_int ?r / of_int tot"
    using tot by (intro divide_right_mono) simp_all
  with be x st have "of_int ?q \<le> ?b" by linarith
  then have "?q \<le> \<lfloor>?b\<rfloor>" by (simp only: le_floor_iff)
  with le show "progress_of n tot = spec_progress n tot" by (simp add: p)
qed

lemma progress_1_3: "progress_of 1 3 = 33"
proof -
  have "progress_of 1 3 = spec_progress 1 3"
    by (rule progress_of_near_floor(3)) simp_all
  then show ?thesis by (simp add: spec_progress_div)
qed


subsection \<open>The scanner thread, step by step\<close>

lemma run_to_end_dead: "\<not> alive t \<Longrightarrow> run_to_end net now t = t"
  by (simp add: run_to_end.simps)

lemma finish_dead: "\<not> alive (finish now t)"
  by (simp add: finish_def)

lemma run_to_end_step: "run_to_end net now (thread_step net now t) = run_to_end net now t"
proof (cases "alive t")
  case True
  then show ?thesis by (subst (2) run_to_end.simps) simp
next
  case False
  then show ?thesis by (simp add: thread_step_def)
qed

lemma run_to_end_steps: "run_to_end net now (steps k net now t) = run_to_end net now t"
  by (induction k arbitrary: t) (simp_all add: run_to_end_step)

lemma thread_step_stopped:
  "alive t \<Longrightarrow> \<not> is_running t \<Longrightarrow> thread_step net now t = finish now t"
  by (simp add: thread_step_def split: list.splits)

lemma thread_step_exhausted:
  "alive t \<Longrightarrow> remaining t = [] \<Longrightarrow> thread_step net now t = finish now t"
  by (simp add: thread_step_def)

lemma run_to_end_stopped:
  assumes "alive t" "\<not> is_running t"
  shows "run_to_end net now t = finish now t"
proof -
  have "run_to_end net now t = run_to_end net now (thread_step net now t)"
    by (simp add: run_to_end_step)
  also have "\<dots> = run_to_end net now (finish now t)"
    using assms by (simp add: thread_step_stopped)
  also have "\<dots> = finish now t" by (simp add: run_to_end_dead finish_dead)
  finally show ?thesis .
qed

lemma run_to_end_exhausted:
  assumes "alive t" "remaining t = []"
  shows "run_to_end net now t = finish now t"
proof -
  have "run_to_end net now t = run_to_end net now (thread_step net now t)"
    by (simp add: run_to_end_step)
  also have "\<dots> = run_to_end net now (finish now t)"
    using assms by (simp add: thread_step_exhausted)
  also have "\<dots> = finish now t" by (simp add: run_to_end_dead finish_dead)
  finally show ?thesis .
qed

lemma thread_step_body:
  assumes "alive t" "is_running t" "total_ports t \<noteq> 0" "remaining t = p # rest"
  shows "thread_step net now t =
     t\<lparr>open_ports := open_ports t @ found_open net (target t) [p],
       scanned := scanned t + 1,
       remaining := rest,
       emitted := emitted t @ loop_signals net (target t) (total_ports t) (scanned t) [p]\<rparr>"
  using assms
  by (simp add: thread_step_def loop_body_def Let_def total_ports_def found_open_def)

lemma loop_signals_append:
  "loop_signals net tgt tot n (ps @ qs) =
     loop_signals net tgt tot n ps @ loop_signals net tgt tot (n + int (length ps)) qs"
  by (induction ps arbitrary: n) (simp_all add: add.assoc)

lemma steps_scan:
  assumes "alive t" "is_running t" "total_ports t \<noteq> 0" "remaining t = ps @ qs"
  shows "steps (length ps) net now t =
     t\<lparr>open_ports := open_ports t @ found_open net (target t) ps,
       scanned := scanned t + int (length ps),
       remaining := qs,
       emitted := emitted t @ loop_signals net (target t) (total_ports t) (scanned t) ps\<rparr>"
  using assms
proof (induction ps arbitrary: t)
  case Nil
  then show ?case by (simp add: found_open_def)
next
  case (Cons p ps)
  let ?t1 = "thread_step net now t"
  have r: "remaining t = p # (ps @ qs)" using Cons.prems by simp
  note s1 = thread_step_body [OF Cons.prems(1-3) r, of net now]
  have a: "alive ?t1" "is_running ?t1" "total_ports ?t1 \<noteq> 0" "remaining ?t1 = ps @ qs"
    using Cons.prems by (simp_all add: s1 total_ports_def)
  have "steps (length (p # ps)) net now t = steps (length ps) net now ?t1" by simp
  also note Cons.IH [OF a]
  finally show ?case
    by (simp add: s1 total_ports_def found_open_def add.assoc)
qed


subsection \<open>A whole scan in closed form\<close>

lemma upto_len: "length [i..j] = nat (j - i + 1)"
  by simp

lemma start_thread_props:
  "alive (start_thread t)" "is_running (start_thread t) = is_running t"
  "total_ports (start_thread t) = total_ports t"
  "remaining (start_thread t) = [start_port t..end_port t]"
  "scanned (start_thread t) = 0" "target (start_thread t) = target t"
  "open_ports (start_thread t) = open_ports t" "emitted (start_thread t) = emitted t"
  by (simp_all add: start_thread_def total_ports_def)

text \<open>k iterations of a fresh thread over a valid range.\<close>

lemma steps_fresh:
  assumes "sp \<le> ep" "k \<le> nat (ep - sp + 1)"
  shows "steps k net now (start_thread (new_scanner tgt sp ep tmo)) =
     \<lparr>target = tgt, start_port = sp, end_port = ep, timeout = tmo, is_running = True,
      open_ports = found_open net tgt (take k [sp..ep]),
      remaining = drop k [sp..ep],
      scanned = int k,
      alive = True,
      emitted = loop_signals net tgt (ep - sp + 1) 0 (take k [sp..ep])\<rparr>"
proof -
  let ?t = "start_thread (new_scanner tgt sp ep tmo)"
  have len: "length (take k [sp..ep]) = k" using assms by simp
  have a: "alive ?t" "is_running ?t" "total_ports ?t \<noteq> 0"
    "remaining ?t = take k [sp..ep] @ drop k [sp..ep]"
    using assms by (simp_all add: start_thread_def new_scanner_def total_ports_def)
  from steps_scan [OF a, of net now] show ?thesis
    unfolding len
    by (simp add: start_thread_def new_scanner_def total_ports_def)
qed

lemma run_fresh:
  assumes "sp \<le> ep"
  shows "run net now (new_scanner tgt sp ep tmo) =
     \<lparr>target = tgt, start_port = sp, end_port = ep, timeout = tmo, is_running = True,
      open_ports = found_open net tgt [sp..ep],
      remaining = [],
      scanned = ep - sp + 1,
      alive = False,
      emitted = loop_signals net tgt (ep - sp + 1) 0 [sp..ep] @
        [Scan_complete \<lparr>res_target = tgt, res_start_port = sp, res_end_port = ep,
           res_open_ports = found_open net tgt [sp..ep], res_scan_time = now\<rparr>]\<rparr>"
proof -
  let ?t = "start_thread (new_scanner tgt sp ep tmo)"
  let ?n = "nat (ep - sp + 1)"
  have s: "steps ?n net now ?t =
     \<lparr>target = tgt, start_port = sp, end_port = ep, timeout = tmo, is_running = True,
      open_ports = found_open net tgt [sp..ep],
      remaining = [],
      scanned = int ?n,
      alive = True,
      emitted = loop_signals net tgt (ep - sp + 1) 0 [sp..ep]\<rparr>"
    using steps_fresh [OF assms, of ?n net now tgt tmo] by simp
  have "run net now (new_scanner tgt sp ep tmo) = run_to_end net now (steps ?n net now ?t)"
    by (simp add: run_def run_to_end_steps)
  also have "\<dots> = finish now (steps ?n net now ?t)"
    by (rule run_to_end_exhausted) (simp_all add: s)
  finally show ?thesis using assms by (simp add: s finish_def results_of_def)
qed

lemma cancelled_fresh:
  assumes "sp \<le> ep" "k \<le> nat (ep - sp + 1)"
  shows "run_to_end net now (stop (steps k net now (start_thread (new_scanner tgt sp ep tmo)))) =
     \<lparr>target = tgt, start_port = sp, end_port = ep, timeout = tmo, is_running = False,
      open_ports = found_open net tgt (take k [sp..ep]),
      remaining = drop k [sp..ep],
      scanned = int k,
      alive = False,
      emitted = loop_signals net tgt (ep - sp + 1) 0 (take k [sp..ep]) @
        [Scan_complete \<lparr>res_target = tgt, res_start_port = sp, res_end_port = ep,
           res_open_ports = found_open net tgt (take k [sp..ep]), res_scan_time = now\<rparr>]\<rparr>"
proof -
  let ?t = "steps k net now (start_thread (new_scanner tgt sp ep tmo))"
  note s = steps_fresh [OF assms, of net now tgt tmo]
  have "run_to_end net now (stop ?t) = finish now (stop ?t)"
    by (rule run_to_end_stopped) (simp_all add: s stop_def)
  then show ?thesis by (simp add: s stop_def finish_def results_of_def)
qed

lemma progress_values_append:
  "progress_values (xs @ ys) = progress_values xs @ progress_values ys"
  by (induction xs rule: progress_values.induct) simp_all

lemma result_updates_append:
  "result_updates (xs @ ys) = result_updates xs @ result_updates ys"
  by (induction xs rule: result_updates.induct) simp_all

lemma completions_append:
  "completions (xs @ ys) = completions xs @ completions ys"
  by (induction xs rule: completions.induct) simp_all

lemma errors_of_append:
  "errors_of (xs @ ys) = errors_of xs @ errors_of ys"
  by (induction xs rule: errors_of.induct) simp_all

lemma progress_values_loop:
  "progress_values (loop_signals net tgt tot n ps) =
     map (\<lambda>i. progress_of (n + 1 + int i) tot) [0..<length ps]"
proof (induction ps arbitrary: n)
  case Nil
  then show ?case by simp
next
  case (Cons p ps)
  have "map (\<lambda>i. progress_of (n + 1 + int i) tot) [0..<length (p # ps)] =
      progress_of (n + 1) tot # map (\<lambda>i. progress_of (n + 1 + 1 + int i) tot) [0..<length ps]"
    by (simp only: length_Cons map_upt_Suc) (simp add: algebra_simps)
  then show ?case using Cons.IH [of "n + 1"] by (simp add: progress_values_append)
qed

lemma result_updates_loop:
  "result_updates (loop_signals net tgt tot n ps) =
     map (\<lambda>p. (tgt, p, identify_service p)) (found_open net tgt ps)"
  by (induction ps arbitrary: n) (simp_all add: result_updates_append found_open_def)

lemma completions_loop: "completions (loop_signals net tgt tot n ps) = []"
  by (induction ps arbitrary: n) (simp_all add: completions_append)

lemma errors_of_loop: "errors_of (loop_signals net tgt tot n ps) = []"
  by (induction ps arbitrary: n) (simp_all add: errors_of_append)

lemma sorted_progress:
  assumes "0 < tot"
  shows "sorted (map (\<lambda>i. progress_of (n + 1 + int i) tot) [0..<m])"
proof -
  have "\<And>i j. i \<le> j \<Longrightarrow> progress_of (n + 1 + int i) tot \<le> progress_of (n + 1 + int j) tot"
    using assms by (intro progress_of_mono) simp_all
  then show ?thesis by (simp add: sorted_iff_nth_mono)
qed


subsection \<open>Open ports and their labels\<close>

lemma scan_port_open: "scan_port net tgt p = ''open'' \<longleftrightarrow> net tgt p = Connected 0"
  by (simp add: scan_port_def split: probe.splits)

lemma found_open_eq: "found_open net tgt ps = filter (\<lambda>p. net tgt p = Connected 0) ps"
  by (simp add: found_open_def scan_port_open)

lemma filter_eq_upto: "filter (\<lambda>p. p = k) [i..j] = (if i \<le> k \<and> k \<le> j then [k] else [])"
proof (induction i j rule: upto.induct)
  case (1 i j)
  show ?case
  proof (cases "i \<le> j")
    case True
    then have u: "[i..j] = i # [i + 1..j]" by (simp add: upto.simps)
    show ?thesis using 1 True unfolding u by auto
  next
    case False
    then show ?thesis by simp
  qed
qed

lemma identify_service_unknown:
  "p \<notin> fst ` set common_ports \<Longrightarrow> identify_service p = ''unknown''"
  by (simp add: identify_service_def map_of_eq_None_iff [THEN iffD2])

lemma identify_service_22: "identify_service 22 = ''SSH''"
  by (simp add: identify_service_def common_ports_def)

text \<open>
  Claim C9, as amended.  A scan by the scanner thread over a valid range emits one result
  signal for each port that accepts a connection, in ascending order, and none for any
  other port; the result carries the port and the label \<open>identify_service\<close> gives it,
  and the same ports are the \<open>open_ports\<close> of the thread.  The label comes from a
  table of 19 ports, and a port that is not in the table is labelled \<open>unknown\<close>.
  Scanning 1 to 100 on a host that serves port 22 only gives exactly one result, port 22
  with the label \<open>SSH\<close>.
\<close>

theorem open_ports_labelled_from_table:
  "(sp \<le> ep \<longrightarrow>
      result_updates (emitted (run net now (new_scanner tgt sp ep tmo))) =
        map (\<lambda>p. (tgt, p, identify_service p)) (filter (\<lambda>p. net tgt p = Connected 0) [sp..ep]) \<and>
      open_ports (run net now (new_scanner tgt sp ep tmo)) =
        filter (\<lambda>p. net tgt p = Connected 0) [sp..ep]) \<and>
   length common_ports = 19 \<and>
   (p \<notin> fst ` set common_ports \<longrightarrow> identify_service p = ''unknown'') \<and>
   ((\<forall>q. net tgt q = Connected 0 \<longleftrightarrow> q = 22) \<longrightarrow>
      result_updates (emitted (run net now (new_scanner tgt 1 100 tmo))) = [(tgt, 22, ''SSH'')])"
proof (intro conjI impI)
  assume v: "sp \<le> ep"
  show "result_updates (emitted (run net now (new_scanner tgt sp ep tmo))) =
        map (\<lambda>p. (tgt, p, identify_service p)) (filter (\<lambda>p. net tgt p = Connected 0) [sp..ep])"
    by (simp add: run_fresh [OF v] result_updates_append result_updates_loop found_open_eq)
  show "open_ports (run net now (new_scanner tgt sp ep tmo)) =
        filter (\<lambda>p. net tgt p = Connected 0) [sp..ep]"
    by (simp add: run_fresh [OF v] found_open_eq)
next
  show "length common_ports = 19" by (simp add: common_ports_def)
next
  assume "p \<notin> fst ` set common_ports"
  then show "identify_service p = ''unknown''" by (rule identify_service_unknown)
next
  assume a: "\<forall>q. net tgt q = Connected 0 \<longleftrightarrow> q = 22"
  have v: "(1::int) \<le> 100" by simp
  have "filter (\<lambda>p. net tgt p = Connected 0) [1..100] = filter (\<lambda>p. p = 22) [1..100]"
    using a by simp
  also have "\<dots> = [22]" by (simp only: filter_eq_upto) simp
  finally show "result_updates (emitted (run net now (new_scanner tgt 1 100 tmo))) = [(tgt, 22, ''SSH'')]"
    by (simp add: run_fresh [OF v] result_updates_append result_updates_loop found_open_eq
        identify_service_22)
qed

theorem open_ports_labelled_from_table_witness:
  "(1::int) \<le> 100 \<and> (\<forall>q. only_ssh ''host'' q = Connected 0 \<longleftrightarrow> q = 22) \<and>
   9999 \<notin> fst ` set common_ports \<and>
   identify_service 9999 = ''unknown'' \<and>
   open_ports (run only_ssh ''t0'' (new_scanner ''host'' 1 100 1)) =
     filter (\<lambda>p. only_ssh ''host'' p = Connected 0) [1..100] \<and>
   result_updates (emitted (run only_ssh ''t0'' (new_scanner ''host'' 1 100 1))) =
     [(''host'', 22, ''SSH'')]"
proof -
  have h1: "(1::int) \<le> 100" by simp
  have h2: "\<forall>q. only_ssh ''host'' q = Connected 0 \<longleftrightarrow> q = 22" by (simp add: only_ssh_def)
  have h3: "9999 \<notin> fst ` set common_ports" by (simp add: common_ports_def)
  from open_ports_labelled_from_table [of 1 100 only_ssh "''t0''" "''host''" 1 9999] h1 h2 h3
  show ?thesis by blast
qed

text \<open>
  The claim as stated fails: the table has 19 entries, not about 60, and the worker of the
  web interface records every open port with the label \<open>unknown\<close>, port 22 included,
  which the table labels \<open>SSH\<close>.
\<close>

theorem service_label_counterexample:
  "length common_ports = 19 \<and>
   identify_service 22 = ''SSH'' \<and>
   map row_port (scan_rows (db (worker_runs only_ssh clock0 0
     (fst (api_start_scan clock0 port_22_request (web_init empty_db)))))) = [22] \<and>
   map row_service (scan_rows (db (worker_runs only_ssh clock0 0
     (fst (api_start_scan clock0 port_22_request (web_init empty_db)))))) = [''unknown'']"
  by (simp add: common_ports_def identify_service_def api_start_scan_def web_init_def empty_db_def
      create_session_def Let_def worker_runs.simps worker_step_def worker_iteration_def
      worker_probe_def worker_completion_def only_ssh_def store_scan_result_def clock0_def
      port_22_request_def upto.simps)


subsection \<open>Cancelling a scan\<close>

lemma run_to_end_stop:
  assumes "alive t"
  shows "run_to_end net now (stop t) =
     (stop t)\<lparr>alive := False, emitted := emitted t @ [Scan_complete (results_of now t)]\<rparr>"
proof -
  have "run_to_end net now (stop t) = finish now (stop t)"
    using assms by (intro run_to_end_stopped) (simp_all add: stop_def)
  then show ?thesis by (simp add: finish_def stop_def results_of_def)
qed

text \<open>
  Claim C1, as amended.  When \<open>stop()\<close> reaches a running scan, whatever it has done so
  far, the thread ends without another probe: the ports found open stay as they are, no
  progress and no result signal follows, and the one signal emitted after the
  cancellation is \<open>scan_complete\<close>, carrying the ports found so far.  For a scan
  cancelled after \<open>k\<close> ports of a valid range these are the open ports among the first
  \<open>k\<close>.  There is no state or signal of its own for a cancelled scan.
\<close>

theorem cancelled_scan_ends_with_completion_signal:
  "(alive t \<longrightarrow>
      \<not> alive (run_to_end net now (stop t)) \<and>
      open_ports (run_to_end net now (stop t)) = open_ports t \<and>
      emitted (run_to_end net now (stop t)) = emitted t @ [Scan_complete (results_of now t)] \<and>
      res_open_ports (results_of now t) = open_ports t \<and>
      progress_values (emitted (run_to_end net now (stop t))) = progress_values (emitted t) \<and>
      result_updates (emitted (run_to_end net now (stop t))) = result_updates (emitted t)) \<and>
   (sp \<le> ep \<and> k \<le> nat (ep - sp + 1) \<longrightarrow>
      open_ports (run_to_end net now
          (stop (steps k net now (start_thread (new_scanner tgt sp ep tmo))))) =
        filter (\<lambda>p. net tgt p = Connected 0) (take k [sp..ep]) \<and>
      length (progress_values (emitted (run_to_end net now
          (stop (steps k net now (start_thread (new_scanner tgt sp ep tmo))))))) = k)"
proof (intro conjI impI)
  assume a: "alive t"
  note r = run_to_end_stop [OF a, of net now]
  show "\<not> alive (run_to_end net now (stop t))" by (simp add: r)
  show "open_ports (run_to_end net now (stop t)) = open_ports t"
    unfolding r by (simp add: stop_def)
  show "emitted (run_to_end net now (stop t)) = emitted t @ [Scan_complete (results_of now t)]"
    by (simp add: r)
  show "res_open_ports (results_of now t) = open_ports t" by (simp add: results_of_def)
  show "progress_values (emitted (run_to_end net now (stop t))) = progress_values (emitted t)"
    by (simp add: r progress_values_append)
  show "result_updates (emitted (run_to_end net now (stop t))) = result_updates (emitted t)"
    by (simp add: r result_updates_append)
next
  assume b: "sp \<le> ep \<and> k \<le> nat (ep - sp + 1)"
  then have v: "sp \<le> ep" and kk: "k \<le> nat (ep - sp + 1)" by auto
  note c = cancelled_fresh [OF v kk, of net now tgt tmo]
  show "open_ports (run_to_end net now
          (stop (steps k net now (start_thread (new_scanner tgt sp ep tmo))))) =
        filter (\<lambda>p. net tgt p = Connected 0) (take k [sp..ep])"
    by (simp add: c found_open_eq)
  have "length (take k [sp..ep]) = k" using v kk by simp
  then show "length (progress_values (emitted (run_to_end net now
          (stop (steps k net now (start_thread (new_scanner tgt sp ep tmo))))))) = k"
    by (simp add: c progress_values_append progress_values_loop)
qed

theorem cancelled_scan_ends_with_completion_signal_witness:
  "alive (steps 1 only_ssh ''t0'' (start_thread (new_scanner ''host'' 21 23 1))) \<and>
   (21::int) \<le> 23 \<and> (2::nat) \<le> nat (23 - 21 + 1) \<and>
   \<not> alive (run_to_end only_ssh ''t1''
      (stop (steps 1 only_ssh ''t0'' (start_thread (new_scanner ''host'' 21 23 1))))) \<and>
   open_ports (run_to_end only_ssh ''t1''
      (stop (steps 2 only_ssh ''t1'' (start_thread (new_scanner ''host'' 21 23 1))))) = [22]"
proof -
  have v: "(21::int) \<le> 23" and k1: "(1::nat) \<le> nat (23 - 21 + 1)"
    and k2: "(2::nat) \<le> nat (23 - 21 + 1)" by simp_all
  have h: "alive (steps 1 only_ssh ''t0'' (start_thread (new_scanner ''host'' 21 23 1)))"
    unfolding steps_fresh [OF v k1] by simp
  have u: "[21..23] = [21, 22, 23::int]" by (simp add: upto.simps)
  have f: "filter (\<lambda>p. only_ssh ''host'' p = Connected 0) (take 2 [21..23]) = [22]"
    by (simp add: u only_ssh_def)
  from cancelled_scan_ends_with_completion_signal
    [of "steps 1 only_ssh ''t0'' (start_thread (new_scanner ''host'' 21 23 1))"
      only_ssh "''t1''" 21 23 2 "''host''" 1] h v k2 f
  show ?thesis by simp
qed


text \<open>
  The claim as stated fails: a scan of ports 1 to 3 that is stopped after its first port
  emits \<open>scan_complete\<close> like a scan that ran to its end, and the slot of that signal
  records the session as \<open>completed\<close>.
\<close>

theorem cancelled_scan_counterexample:
  "map_option scanned
     (scanner (stop_scan all_closed clock0
        (thread_runs all_closed clock0 (start_scan clock0 example_module)))) = Some 1 \<and>
   map_option (completions \<circ> emitted)
     (scanner (stop_scan all_closed clock0
        (thread_runs all_closed clock0 (start_scan clock0 example_module)))) =
     Some [\<lparr>res_target = ''host'', res_start_port = 1, res_end_port = 3,
            res_open_ports = [], res_scan_time = ''2024-01-01T00:00:00''\<rparr>] \<and>
   session_status (db_manager (process_events clock0 (stop_scan all_closed clock0
        (thread_runs all_closed clock0 (start_scan clock0 example_module))))) 1 =
     Some ''completed''"
  by (simp add: example_module_def start_scan_def py_strip_def is_space_def create_session_def
      empty_db_def clock0_def Let_def thread_runs_def start_thread_def new_scanner_def
      thread_step_def loop_body_def scan_port_def all_closed_def total_ports_def upto.simps
      stop_scan_def stop_def run_to_end.simps finish_def results_of_def
      process_events_def update_progress_def scan_finished_def update_session_def
      session_status_def)


subsection \<open>Stopping twice, and stopping a scan that has ended\<close>

lemma deliver_keeps:
  "scanner (deliver clk sg m) = scanner m" "delivered (deliver clk sg m) = delivered m"
  by (cases sg; simp add: update_progress_def display_result_def scan_finished_def
      handle_error_def Let_def split: option.splits)+

lemma deliver_buttons:
  "start_btn m \<and> \<not> stop_btn m \<Longrightarrow>
     start_btn (deliver clk sg m) \<and> \<not> stop_btn (deliver clk sg m)"
  by (cases sg; simp add: update_progress_def display_result_def scan_finished_def
      handle_error_def Let_def split: option.splits)

lemma fold_deliver_keeps:
  "scanner (fold (deliver clk) sgs m) = scanner m \<and>
   delivered (fold (deliver clk) sgs m) = delivered m"
  by (induction sgs arbitrary: m) (simp_all add: deliver_keeps)

lemma fold_deliver_buttons:
  "start_btn m \<and> \<not> stop_btn m \<Longrightarrow>
     start_btn (fold (deliver clk) sgs m) \<and> \<not> stop_btn (fold (deliver clk) sgs m)"
  by (induction sgs arbitrary: m) (simp_all add: deliver_buttons)

lemma stop_scan_buttons: "start_btn (stop_scan net clk m) \<and> \<not> stop_btn (stop_scan net clk m)"
  by (simp add: stop_scan_def Let_def)

lemma stop_scan_terminal:
  assumes "\<forall>t. scanner m = Some t \<longrightarrow> \<not> alive t"
  shows "stop_scan net clk m = m\<lparr>start_btn := True, stop_btn := False\<rparr>"
  using assms by (cases "scanner m") (simp_all add: stop_scan_def Let_def)

lemma stop_scan_scanner_dead:
  "\<forall>t. scanner (stop_scan net clk m) = Some t \<longrightarrow> \<not> alive t"
proof (cases "scanner m")
  case None
  then show ?thesis by (simp add: stop_scan_def Let_def)
next
  case (Some t)
  show ?thesis
  proof (cases "alive t")
    case True
    then show ?thesis using Some by (simp add: stop_scan_def Let_def run_to_end_stop)
  next
    case False
    then show ?thesis using Some by (simp add: stop_scan_def Let_def)
  qed
qed

lemma stop_scan_twice: "stop_scan net clk2 (stop_scan net clk1 m) = stop_scan net clk1 m"
proof -
  have "stop_scan net clk2 (stop_scan net clk1 m) =
      (stop_scan net clk1 m)\<lparr>start_btn := True, stop_btn := False\<rparr>"
    by (rule stop_scan_terminal) (rule stop_scan_scanner_dead)
  also have "\<dots> = stop_scan net clk1 m"
    using stop_scan_buttons [of net clk1 m] by simp
  finally show ?thesis .
qed

lemma process_events_props:
  "scanner (process_events clk m) = scanner m"
  "start_btn m \<and> \<not> stop_btn m \<Longrightarrow>
     start_btn (process_events clk m) \<and> \<not> stop_btn (process_events clk m)"
  "\<forall>t. scanner m = Some t \<longrightarrow> delivered (process_events clk m) = length (emitted t)"
  by (cases "scanner m"; simp add: process_events_def fold_deliver_keeps fold_deliver_buttons)+

lemma process_events_done:
  assumes "\<forall>t. scanner m = Some t \<longrightarrow> delivered m = length (emitted t)"
  shows "process_events clk m = m"
  using assms by (cases "scanner m") (simp_all add: process_events_def)

lemma stop_after_delivery:
  "process_events clk2 (stop_scan net clk2 (process_events clk1 (stop_scan net clk1 m))) =
     process_events clk1 (stop_scan net clk1 m)"
proof -
  let ?x = "process_events clk1 (stop_scan net clk1 m)"
  have sc: "scanner ?x = scanner (stop_scan net clk1 m)" by (simp add: process_events_props)
  have dead: "\<forall>t. scanner ?x = Some t \<longrightarrow> \<not> alive t"
    unfolding sc by (rule stop_scan_scanner_dead)
  have b: "start_btn ?x \<and> \<not> stop_btn ?x"
    by (intro process_events_props(2) stop_scan_buttons)
  have "stop_scan net clk2 ?x = ?x\<lparr>start_btn := True, stop_btn := False\<rparr>"
    using dead by (rule stop_scan_terminal)
  also have "\<dots> = ?x" using b by simp
  finally have 1: "stop_scan net clk2 ?x = ?x" .
  have "\<forall>t. scanner ?x = Some t \<longrightarrow> delivered ?x = length (emitted t)"
    using process_events_props(3) [of "stop_scan net clk1 m" clk1] unfolding sc by simp
  then have "process_events clk2 ?x = ?x" by (rule process_events_done)
  then show ?thesis by (simp add: 1)
qed

text \<open>
  Claim C7.  \<open>stop()\<close> is idempotent.  \<open>stop_scan\<close> on a module whose scan has already
  ended, or that has no scan, raises nothing and changes nothing but the two buttons,
  which it sets as every call does.  Calling \<open>stop_scan\<close> twice leaves the module in the
  state one call leaves it in; a second call after the signals of the first have been
  handled changes nothing either, so the results are finalised once: the thread of a
  scan stopped twice has emitted exactly one completion signal.
\<close>

theorem stop_scan_idempotent:
  "stop (stop t) = stop t \<and>
   ((\<forall>t. scanner m = Some t \<longrightarrow> \<not> alive t) \<longrightarrow>
      stop_scan net clk1 m = m\<lparr>start_btn := True, stop_btn := False\<rparr>) \<and>
   stop_scan net clk2 (stop_scan net clk1 m) = stop_scan net clk1 m \<and>
   process_events clk2 (stop_scan net clk2 (process_events clk1 (stop_scan net clk1 m))) =
     process_events clk1 (stop_scan net clk1 m) \<and>
   (scanner m = Some t \<and> alive t \<and> completions (emitted t) = [] \<longrightarrow>
      map_option (\<lambda>t'. length (completions (emitted t')))
        (scanner (stop_scan net clk2 (stop_scan net clk1 m))) = Some 1)"
proof (intro conjI impI)
  show "stop (stop t) = stop t" by (simp add: stop_def)
next
  assume "\<forall>t. scanner m = Some t \<longrightarrow> \<not> alive t"
  then show "stop_scan net clk1 m = m\<lparr>start_btn := True, stop_btn := False\<rparr>"
    by (rule stop_scan_terminal)
next
  show "stop_scan net clk2 (stop_scan net clk1 m) = stop_scan net clk1 m"
    by (rule stop_scan_twice)
next
  show "process_events clk2 (stop_scan net clk2 (process_events clk1 (stop_scan net clk1 m))) =
     process_events clk1 (stop_scan net clk1 m)"
    by (rule stop_after_delivery)
next
  assume a: "scanner m = Some t \<and> alive t \<and> completions (emitted t) = []"
  then have "scanner (stop_scan net clk1 m) = Some (run_to_end net (iso clk1) (stop t))"
    by (simp add: stop_scan_def Let_def)
  then show "map_option (\<lambda>t'. length (completions (emitted t')))
        (scanner (stop_scan net clk2 (stop_scan net clk1 m))) = Some 1"
    using a by (simp add: stop_scan_twice run_to_end_stop completions_append)
qed

lemma example_scanning:
  "scanner (thread_runs all_closed clock0 (start_scan clock0 example_module)) =
     Some (steps 1 all_closed (iso clock0) (start_thread (new_scanner ''host'' 1 3 1)))"
  by (simp add: example_module_def start_scan_def py_strip_def is_space_def create_session_def
      empty_db_def Let_def thread_runs_def)

theorem stop_scan_idempotent_witness:
  "scanner (thread_runs all_closed clock0 (start_scan clock0 example_module)) =
     Some (steps 1 all_closed (iso clock0) (start_thread (new_scanner ''host'' 1 3 1))) \<and>
   alive (steps 1 all_closed (iso clock0) (start_thread (new_scanner ''host'' 1 3 1))) \<and>
   completions (emitted (steps 1 all_closed (iso clock0)
     (start_thread (new_scanner ''host'' 1 3 1)))) = [] \<and>
   map_option (\<lambda>t'. length (completions (emitted t')))
     (scanner (stop_scan all_closed clock0 (stop_scan all_closed clock0
        (thread_runs all_closed clock0 (start_scan clock0 example_module))))) = Some 1 \<and>
   scanner example_module = None \<and>
   stop_scan all_closed clock0 example_module = example_module\<lparr>start_btn := True, stop_btn := False\<rparr>"
proof -
  have v: "(1::int) \<le> 3" and k: "(1::nat) \<le> nat (3 - 1 + 1)" by simp_all
  note s = steps_fresh [OF v k, of all_closed "iso clock0" "''host''" 1]
  have h1: "alive (steps 1 all_closed (iso clock0) (start_thread (new_scanner ''host'' 1 3 1)))"
    unfolding s by simp
  have h2: "completions (emitted (steps 1 all_closed (iso clock0)
     (start_thread (new_scanner ''host'' 1 3 1)))) = []"
    unfolding s by (simp add: completions_loop)
  have n: "scanner example_module = None" by (simp add: example_module_def)
  then have h3: "\<forall>t. scanner example_module = Some t \<longrightarrow> \<not> alive t" by simp
  from stop_scan_idempotent
    [of "steps 1 all_closed (iso clock0) (start_thread (new_scanner ''host'' 1 3 1))"
      "thread_runs all_closed clock0 (start_scan clock0 example_module)" all_closed clock0 clock0]
    example_scanning h1 h2
  have w1: "map_option (\<lambda>t'. length (completions (emitted t')))
     (scanner (stop_scan all_closed clock0 (stop_scan all_closed clock0
        (thread_runs all_closed clock0 (start_scan clock0 example_module))))) = Some 1"
    by blast
  from stop_scan_idempotent
    [of "new_scanner ''host'' 1 3 1" example_module all_closed clock0 clock0] h3
  have w2: "stop_scan all_closed clock0 example_module =
      example_module\<lparr>start_btn := True, stop_btn := False\<rparr>"
    by blast
  from example_scanning h1 h2 w1 n w2 show ?thesis by blast
qed


subsection \<open>Requests that are rejected\<close>

text \<open>
  Claim C4, as amended.  \<open>start_scan\<close> of the desktop module rejects a start port above
  the end port: it shows the warning \<open>Invalid Range\<close> and does nothing else, so no
  session record and no thread is created.  \<open>api_start_scan\<close> of the web interface
  rejects a missing or empty target with status 400 and the error \<open>target required\<close>,
  and leaves the job store, the job counter, the database and the set of workers as they
  were.  Neither of them looks at the timeout.
\<close>

theorem invalid_requests_rejected:
  "(end_port_value m < start_port_value m \<longrightarrow>
      start_scan clk m = m\<lparr>message_boxes := message_boxes m @
        [(''Invalid Range'', ''Start port must be less than or equal to end port!'')]\<rparr> \<and>
      db_manager (start_scan clk m) = db_manager m \<and>
      scanner (start_scan clk m) = scanner m \<and>
      current_session_id (start_scan clk m) = current_session_id m) \<and>
   (req_target rq = None \<or> req_target rq = Some [] \<longrightarrow>
      api_start_scan clk rq s = (s, Error_response 400 ''target required''))"
  by (auto simp: start_scan_def api_start_scan_def Let_def)

theorem invalid_requests_rejected_witness:
  "end_port_value (example_module\<lparr>start_port_value := 5\<rparr>)
     < start_port_value (example_module\<lparr>start_port_value := 5\<rparr>) \<and>
   db_manager (start_scan clock0 (example_module\<lparr>start_port_value := 5\<rparr>)) = empty_db \<and>
   scanner (start_scan clock0 (example_module\<lparr>start_port_value := 5\<rparr>)) = None \<and>
   req_target \<lparr>req_target = Some [], req_start_port = 1, req_end_port = 10, req_timeout = 1\<rparr>
     = Some [] \<and>
   api_start_scan clock0
     \<lparr>req_target = Some [], req_start_port = 1, req_end_port = 10, req_timeout = 1\<rparr>
     (web_init empty_db) = (web_init empty_db, Error_response 400 ''target required'')"
proof -
  have h1: "end_port_value (example_module\<lparr>start_port_value := 5\<rparr>)
     < start_port_value (example_module\<lparr>start_port_value := 5\<rparr>)"
    by (simp add: example_module_def)
  have h2: "req_target \<lparr>req_target = Some [], req_start_port = 1, req_end_port = 10,
      req_timeout = 1\<rparr> = Some []"
    by simp
  have e: "db_manager (example_module\<lparr>start_port_value := 5\<rparr>) = empty_db"
    "scanner (example_module\<lparr>start_port_value := 5\<rparr>) = None"
    by (simp_all add: example_module_def)
  from invalid_requests_rejected
    [of "example_module\<lparr>start_port_value := 5\<rparr>" clock0
      "\<lparr>req_target = Some [], req_start_port = 1, req_end_port = 10, req_timeout = 1\<rparr>"
      "web_init empty_db"] h1 h2 e
  show ?thesis by simp
qed

text \<open>
  The claim as stated fails: the web interface accepts a request whose timeout is 0.  It
  creates the session record and the job, and starts the worker.
\<close>

theorem zero_timeout_counterexample:
  "req_timeout zero_timeout_request = 0 \<and>
   snd (api_start_scan clock0 zero_timeout_request (web_init empty_db)) = Job_created ''job-1'' \<and>
   map fst (sessions (db (fst (api_start_scan clock0 zero_timeout_request (web_init empty_db)))))
     = [1] \<and>
   map_option job_status
     (jobs (fst (api_start_scan clock0 zero_timeout_request (web_init empty_db))) ''job-1'')
     = Some ''running'' \<and>
   map w_job_id (workers (fst (api_start_scan clock0 zero_timeout_request (web_init empty_db))))
     = [''job-1''] \<and>
   map w_timeout (workers (fst (api_start_scan clock0 zero_timeout_request (web_init empty_db))))
     = [0] \<and>
   map w_alive (workers (fst (api_start_scan clock0 zero_timeout_request (web_init empty_db))))
     = [True]"
  by (simp add: api_start_scan_def web_init_def empty_db_def create_session_def Let_def
      str_int_def str_nat.simps digit_char_def clock0_def zero_timeout_request_def)


subsection \<open>The job store of the web interface\<close>

lemma worker_probe_jobs: "jobs (fst (worker_probe net clk s w port)) = jobs s"
  by (simp add: worker_probe_def split: probe.splits)

lemma worker_iteration_jobs:
  "jobs (fst (worker_iteration net clk s w port rest)) jid = Some j' \<Longrightarrow>
     \<exists>j. jobs s jid = Some j \<and> job_status j' = job_status j \<and>
       job_open_ports j' = job_open_ports j"
proof -
  assume a: "jobs (fst (worker_iteration net clk s w port rest)) jid = Some j'"
  obtain s1 w1 where p: "worker_probe net clk s w port = (s1, w1)" by (cases "worker_probe net clk s w port")
  have j1: "jobs s1 = jobs s" using worker_probe_jobs [of net clk s w port] p by simp
  show ?thesis
    using a j1
    by (auto simp: worker_iteration_def p Let_def split: if_splits option.splits)
qed

lemma worker_completion_jobs:
  "jobs (fst (worker_completion clk s w)) jid = Some j' \<Longrightarrow>
     \<exists>j. jobs s jid = Some j \<and>
       (job_status j' = ''completed'' \<or>
        job_status j' = job_status j \<and> job_open_ports j' = job_open_ports j)"
  by (auto simp: worker_completion_def split: option.splits if_splits)

lemma worker_step_jobs:
  assumes "jobs (worker_step net clk i s) jid = Some j'"
  shows "\<exists>j. jobs s jid = Some j \<and>
       (job_status j' = ''completed'' \<or>
        job_status j' = job_status j \<and> job_open_ports j' = job_open_ports j)"
proof (cases "i < length (workers s) \<and> w_alive (workers s ! i)")
  case False
  then have "worker_step net clk i s = s" by (auto simp: worker_step_def Let_def)
  then show ?thesis using assms by simp
next
  case True
  let ?w = "workers s ! i"
  show ?thesis
  proof (cases "w_remaining ?w")
    case Nil
    then have "jobs (worker_step net clk i s) = jobs (fst (worker_completion clk s ?w))"
      using True by (simp add: worker_step_def Let_def split: prod.splits)
    then show ?thesis using assms worker_completion_jobs [of clk s ?w jid j'] by simp
  next
    case (Cons port rest)
    then have "jobs (worker_step net clk i s) = jobs (fst (worker_iteration net clk s ?w port rest))"
      using True by (simp add: worker_step_def Let_def split: prod.splits)
    then show ?thesis using assms worker_iteration_jobs [of net clk s ?w port rest jid j'] by auto
  qed
qed

lemma api_start_scan_jobs:
  assumes "jobs (fst (api_start_scan clk rq s)) jid = Some j'"
  shows "jobs s jid = Some j' \<or> (job_status j' = ''running'' \<and> job_open_ports j' = [])"
  using assms
  by (auto simp: api_start_scan_def Let_def create_session_def split: option.splits if_splits)

lemma reachable_running_hides_ports: "reachable s \<Longrightarrow> running_hides_ports s"
proof (induction rule: reachable.induct)
  case (initial d)
  show ?case by (simp add: running_hides_ports_def web_init_def)
next
  case (request s clk rq)
  show ?case
    unfolding running_hides_ports_def
  proof (intro allI impI)
    fix jid j
    assume a: "jobs (fst (api_start_scan clk rq s)) jid = Some j \<and> job_status j = ''running''"
    then consider "jobs s jid = Some j" | "job_open_ports j = []"
      using api_start_scan_jobs [of clk rq s jid j] by auto
    then show "job_open_ports j = []"
      using a request.IH by cases (auto simp: running_hides_ports_def)
  qed
next
  case (progress s net clk i)
  show ?case
    unfolding running_hides_ports_def
  proof (intro allI impI)
    fix jid j'
    assume a: "jobs (worker_step net clk i s) jid = Some j' \<and> job_status j' = ''running''"
    then obtain j where j: "jobs s jid = Some j"
      "job_status j' = ''completed'' \<or>
        job_status j' = job_status j \<and> job_open_ports j' = job_open_ports j"
      using worker_step_jobs [of net clk i s jid j'] by auto
    then have "job_status j = ''running''" "job_open_ports j' = job_open_ports j" using a by auto
    then show "job_open_ports j' = []"
      using j(1) progress.IH by (auto simp: running_hides_ports_def)
  qed
qed

text \<open>
  Claim C10.  In every state the web interface can reach, a status query that answers
  \<open>running\<close> answers with an empty list of open ports; and a step of a worker that
  changes the list of a job leaves that job \<open>completed\<close>: the ports appear in the
  answer together with the new status, not before.
\<close>

theorem running_job_shows_no_open_ports:
  "(reachable s \<longrightarrow>
      (\<forall>jid v. api_scan_status s jid = Inr v \<and> view_status v = ''running''
         \<longrightarrow> view_open_ports v = [])) \<and>
   (\<forall>jid j j'. jobs s jid = Some j \<and> jobs (worker_step net clk i s) jid = Some j' \<and>
        job_open_ports j' \<noteq> job_open_ports j
      \<longrightarrow> job_status j' = ''completed'')"
proof (intro conjI impI allI)
  fix jid v
  assume r: "reachable s" and a: "api_scan_status s jid = Inr v \<and> view_status v = ''running''"
  from a obtain j where j: "jobs s jid = Some j" "job_status j = ''running''"
    "view_open_ports v = job_open_ports j"
    by (auto simp: api_scan_status_def split: option.splits)
  then show "view_open_ports v = []"
    using reachable_running_hides_ports [OF r] by (auto simp: running_hides_ports_def)
next
  fix jid j j'
  assume a: "jobs s jid = Some j \<and> jobs (worker_step net clk i s) jid = Some j' \<and>
        job_open_ports j' \<noteq> job_open_ports j"
  then show "job_status j' = ''completed''"
    using worker_step_jobs [of net clk i s jid j'] by auto
qed

lemma ssh_started:
  "fst (api_start_scan clock0 ssh_request (web_init empty_db)) =
     \<lparr>jobs = [''job-1'' \<mapsto> \<lparr>job_status = ''running'', job_progress = 0, job_open_ports = [],
          job_session_id = 1, job_started_at = iso clock0, job_finished_at = None\<rparr>],
      job_counter = 1,
      db = \<lparr>next_session_id = 2,
        sessions = [(1, \<lparr>session_type = ''red_team'', sess_target = ''host'',
          sess_start_time = iso clock0, sess_end_time = None,
          sess_config = Some [(''start_port'', 22), (''end_port'', 23)],
          sess_results = None, sess_status = ''active''\<rparr>)],
        scan_rows = []\<rparr>,
      logger = [(''RED_TEAM'', ''Port scan started: host ports 22-23'', ''INFO'')],
      workers = [\<lparr>w_job_id = ''job-1'', w_session_id = 1, w_target = ''host'', w_start_port = 22,
        w_end_port = 23, w_timeout = 1, w_open_ports = [], w_remaining = [22, 23],
        w_scanned = 0, w_alive = True\<rparr>]\<rparr>"
  by (simp add: api_start_scan_def ssh_request_def web_init_def empty_db_def create_session_def
      Let_def str_int_def str_nat.simps digit_char_def upto.simps)

theorem running_job_shows_no_open_ports_witness:
  "reachable (worker_step only_ssh clock0 0 (fst (api_start_scan clock0 ssh_request (web_init empty_db)))) \<and>
   map row_port (scan_rows (db (worker_step only_ssh clock0 0
      (fst (api_start_scan clock0 ssh_request (web_init empty_db)))))) = [22] \<and>
   map_sum id (\<lambda>v. (view_status v, view_open_ports v))
     (api_scan_status (worker_step only_ssh clock0 0
        (fst (api_start_scan clock0 ssh_request (web_init empty_db)))) ''job-1'') =
     Inr (''running'', []) \<and>
   map_option (\<lambda>j. (job_status j, job_open_ports j))
     (jobs (worker_step only_ssh clock0 0 (worker_step only_ssh clock0 0
        (worker_step only_ssh clock0 0
          (fst (api_start_scan clock0 ssh_request (web_init empty_db)))))) ''job-1'') =
     Some (''completed'', [22])"
proof -
  let ?s0 = "fst (api_start_scan clock0 ssh_request (web_init empty_db))"
  let ?s1 = "worker_step only_ssh clock0 0 ?s0"
  have r: "reachable ?s1"
    by (intro reachable.progress reachable.request reachable.initial)
  have j1: "\<exists>j. jobs ?s1 ''job-1'' = Some j \<and> job_status j = ''running''"
    by (simp add: ssh_started worker_step_def worker_iteration_def worker_probe_def only_ssh_def
        store_scan_result_def Let_def)
  then obtain j where j: "jobs ?s1 ''job-1'' = Some j" "job_status j = ''running''" by blast
  let ?v = "\<lparr>view_status = job_status j, view_progress = job_progress j,
      view_open_ports = job_open_ports j\<rparr>"
  have q: "api_scan_status ?s1 ''job-1'' = Inr ?v" using j by (simp add: api_scan_status_def)
  from running_job_shows_no_open_ports [of ?s1 only_ssh clock0 0] r
  have "\<forall>jid v. api_scan_status ?s1 jid = Inr v \<and> view_status v = ''running''
         \<longrightarrow> view_open_ports v = []"
    by blast
  then have "api_scan_status ?s1 ''job-1'' = Inr ?v \<and> view_status ?v = ''running''
         \<longrightarrow> view_open_ports ?v = []"
    by blast
  then have "view_open_ports ?v = []" using q j(2) by simp
  then have w1: "map_sum id (\<lambda>v. (view_status v, view_open_ports v))
     (api_scan_status ?s1 ''job-1'') = Inr (''running'', [])"
    using q j(2) by simp
  have w2: "map row_port (scan_rows (db ?s1)) = [22]"
    by (simp add: ssh_started worker_step_def worker_iteration_def worker_probe_def only_ssh_def
        store_scan_result_def Let_def)
  have w3: "map_option (\<lambda>j. (job_status j, job_open_ports j))
     (jobs (worker_step only_ssh clock0 0 (worker_step only_ssh clock0 0 ?s1)) ''job-1'') =
     Some (''completed'', [22])"
    by (simp add: ssh_started worker_step_def worker_iteration_def worker_probe_def only_ssh_def
        store_scan_result_def worker_completion_def Let_def)
  from r w2 w1 w3 show ?thesis by blast
qed


subsection \<open>The thresholds of a running monitor\<close>

lemma init_ref: "thresholds_ref (snd (system_monitor_init st interval)) = next_free st"
  by (simp add: system_monitor_init_def alloc_def)

lemma init_objects:
  "objects (fst (system_monitor_init st interval)) =
     (objects st)(next_free st := default_thresholds)"
  by (simp add: system_monitor_init_def alloc_def)

text \<open>
  Claim C8, as amended.  A monitor evaluates against a dictionary of its own, created
  when it is constructed from the defaults 80, 85 and 90: a change to any dictionary that
  existed before has no effect on its alert decisions, and more generally a change to a
  dictionary other than the one the monitor refers to has none.  \<open>update_thresholds\<close>
  makes the running monitor refer to the dictionary it is given, without copying it: from
  then on the decisions are those for that dictionary as it is at the time of the check.
\<close>

theorem thresholds_own_until_updated:
  "(r < next_free st \<longrightarrow>
      monitor_check (dict_store (fst (system_monitor_init st interval)) r key v)
        (snd (system_monitor_init st interval)) s =
      check_thresholds default_thresholds s) \<and>
   (r \<noteq> thresholds_ref mon \<longrightarrow>
      monitor_check (dict_store st r key v) mon s = monitor_check st mon s) \<and>
   monitor_check st (update_thresholds mon r) s = check_thresholds (objects st r) s \<and>
   monitor_check (dict_store st r key v) (update_thresholds mon r) s =
     check_thresholds ((objects st r)(key \<mapsto> v)) s"
  by (simp add: monitor_check_def dict_store_def update_thresholds_def init_ref init_objects)

theorem thresholds_own_until_updated_witness:
  "(0::nat) < next_free live_store \<and>
   0 \<noteq> thresholds_ref started_monitor \<and>
   monitor_check (dict_store started_store 0 ''cpu_percent'' 99) started_monitor example_stats =
     check_thresholds default_thresholds example_stats \<and>
   monitor_check (dict_store started_store 0 ''cpu_percent'' 99) started_monitor example_stats =
     monitor_check started_store started_monitor example_stats"
proof -
  have h1: "(0::nat) < next_free live_store" by (simp add: live_store_def alloc_def)
  have h2: "0 \<noteq> thresholds_ref started_monitor"
    by (simp add: started_monitor_def init_ref live_store_def alloc_def)
  from thresholds_own_until_updated
    [of 0 live_store 5 "''cpu_percent''" 99 example_stats started_monitor] h1
  have w1: "monitor_check (dict_store started_store 0 ''cpu_percent'' 99) started_monitor
      example_stats = check_thresholds default_thresholds example_stats"
    by (simp add: started_store_def started_monitor_def)
  from thresholds_own_until_updated
    [of 0 started_store 5 "''cpu_percent''" 99 example_stats started_monitor] h2
  have w2: "monitor_check (dict_store started_store 0 ''cpu_percent'' 99) started_monitor
      example_stats = monitor_check started_store started_monitor example_stats"
    by blast
  from h1 h2 w1 w2 show ?thesis by blast
qed

text \<open>
  The claim as stated fails: once \<open>update_thresholds\<close> has handed the caller's live
  configuration to the running monitor, raising its CPU threshold from 80 to 99 silences
  the alert the monitor gave for a CPU load of 95.
\<close>

theorem live_thresholds_counterexample:
  "map category (fst (monitor_check started_store
      (update_thresholds started_monitor 0) example_stats)) = [''CPU''] \<and>
   fst (monitor_check (dict_store started_store 0 ''cpu_percent'' 99)
      (update_thresholds started_monitor 0) example_stats) = []"
  by (simp add: monitor_check_def update_thresholds_def dict_store_def started_store_def
      started_monitor_def system_monitor_init_def live_store_def alloc_def
      check_thresholds_def default_thresholds_def example_stats_def cpu_alert_def)


subsection \<open>The process monitor\<close>

lemma find_pid:
  assumes "p \<in> pid ` set processes"
  shows "\<exists>proc. find (\<lambda>proc. pid proc = p) processes = Some proc \<and> proc \<in> set processes"
proof (cases "find (\<lambda>proc. pid proc = p) processes")
  case None
  then show ?thesis using assms by (auto simp: find_None_iff)
next
  case (Some proc)
  then show ?thesis by (auto simp: find_Some_iff)
qed

lemma alert_new_named:
  assumes "\<forall>proc \<in> set processes. name proc \<noteq> None" "set pids \<subseteq> pid ` set processes"
  shows "alert_new processes pids =
     (map (\<lambda>p. (first_name processes p, ''New process detected''))
        (filter (suspicious_pid processes) pids), None)"
  using assms(2)
proof (induction pids)
  case Nil
  then show ?case by simp
next
  case (Cons p pids)
  then have "p \<in> pid ` set processes" by simp
  then obtain proc where f: "find (\<lambda>proc. pid proc = p) processes = Some proc"
      and m: "proc \<in> set processes"
    using find_pid by blast
  then obtain n where n: "name proc = Some n" using assms(1) by auto
  have ih: "alert_new processes pids =
     (map (\<lambda>p. (first_name processes p, ''New process detected''))
        (filter (suspicious_pid processes) pids), None)"
    using Cons by simp
  have fn: "first_name processes p = n" by (simp add: first_name_def f n)
  have sp: "suspicious_pid processes p \<longleftrightarrow>
      list_ex (\<lambda>keyword. py_in keyword (py_lower n)) suspicious_keywords"
    by (simp add: suspicious_pid_def fn)
  show ?case by (simp add: f n ih is_suspicious_def fn sp)
qed

lemma detect_first_tick:
  "detect_new_processes order [] processes = ([], None, remdups (map pid processes))"
  by (simp add: detect_new_processes_def Let_def)

lemma detect_later_tick:
  assumes "known \<noteq> []" "\<forall>proc \<in> set processes. name proc \<noteq> None"
    and "set (order (newly_seen known processes)) = set (newly_seen known processes)"
  shows "detect_new_processes order known processes =
     (map (\<lambda>p. (first_name processes p, ''New process detected''))
        (filter (suspicious_pid processes) (order (newly_seen known processes))),
      None, remdups (map pid processes))"
proof (cases "newly_seen known processes = []")
  case True
  then have "order (newly_seen known processes) = []" using assms(3) by simp
  then show ?thesis using True
    by (simp add: detect_new_processes_def Let_def newly_seen_def)
next
  case False
  have "set (order (newly_seen known processes)) \<subseteq> pid ` set processes"
    unfolding assms(3) by (auto simp: newly_seen_def)
  from alert_new_named [OF assms(2) this] show ?thesis
    using False assms(1)
    by (simp add: detect_new_processes_def Let_def newly_seen_def)
qed

lemma detect_after_tick:
  assumes "previous \<noteq> []" "\<forall>proc \<in> set processes. name proc \<noteq> None"
    and "set (order (newly_seen (remdups (map pid previous)) processes)) =
         set (newly_seen (remdups (map pid previous)) processes)"
  shows "detect_new_processes order (remdups (map pid previous)) processes =
     (map (\<lambda>p. (first_name processes p, ''New process detected''))
        (filter (suspicious_pid processes)
           (order (newly_seen (remdups (map pid previous)) processes))),
      None, remdups (map pid processes))"
proof -
  have "set (remdups (map pid previous)) \<noteq> {}" using assms(1) by simp
  then have "remdups (map pid previous) \<noteq> []" by (simp only: set_empty not_False_eq_True)
  then show ?thesis using assms(2,3) by (rule detect_later_tick)
qed

text \<open>
  Claim C6 against the code.  The claim asks for exactly one HIGH alert when a process
  named \<open>newkeylogger.exe\<close> is new on the second tick: its identifier 7 is newly seen
  relative to the first tick and its name contains \<open>keylog\<close>.  After a first tick
  that saw the process \<open>init\<close> the monitor emits that alert.  After a first tick whose
  process list was empty it emits none: \<open>known_processes\<close> is still empty, and the
  guard commented \<open>Skip first run\<close> skips the second run too.  A new process whose name
  is \<open>None\<close> is a second way to lose the alert: \<open>is_suspicious\<close> raises for it, the
  new processes after it are not looked at, and \<open>known_processes\<close> keeps the value of
  an earlier tick, so a process that is new relative to the previous tick is not new for
  the monitor.
\<close>

theorem keylogger_alert_lost_after_empty_tick:
  "newly_seen (remdups (map pid [])) [keylogger_process] = [7] \<and>
   suspicious_pid [keylogger_process] 7 \<and>
   monitor_ticks id [] [[], [keylogger_process]] = [[], []] \<and>
   monitor_ticks id [] [[init_process], [init_process, keylogger_process]] =
     [[], [\<lparr>severity = ''HIGH'', category = ''Process'',
            message = ''Suspicious: newkeylogger.exe - New process detected''\<rparr>]] \<and>
   monitor_ticks id [] [[init_process], [init_process, unnamed_process, keylogger_process]] =
     [[], []] \<and>
   newly_seen (remdups (map pid [init_process, unnamed_process]))
     [init_process, keylogger_process] = [7] \<and>
   monitor_ticks id []
     [[init_process, keylogger_process], [init_process, unnamed_process],
      [init_process, keylogger_process]] = [[], [], []]"
  by (simp add: detect_new_processes_def Let_def init_process_def keylogger_process_def
      unnamed_process_def is_suspicious_def suspicious_keywords_def py_lower_def lower_char_def
      handle_suspicious_process_def newly_seen_def suspicious_pid_def first_name_def)


subsection \<open>A worker of the web interface, step by step\<close>

lemma worker_step_iteration:
  assumes "i < length (workers s)" "workers s ! i = w" "w_alive w" "w_remaining w = p # rest"
    and "w_end_port w - w_start_port w + 1 \<noteq> 0" "jobs s (w_job_id w) = Some j"
  shows "worker_step net clk i s =
     s\<lparr>jobs := (jobs s)(w_job_id w \<mapsto>
           j\<lparr>job_progress := progress_of (w_scanned w + 1) (w_end_port w - w_start_port w + 1)\<rparr>),
       db := (db s)\<lparr>scan_rows := scan_rows (db s) @ stored_rows net clk w [p]\<rparr>,
       logger := logger s @ logged_errors net (w_target w) [p],
       workers := (workers s)[i := w\<lparr>
           w_open_ports := w_open_ports w @ filter (\<lambda>p. net (w_target w) p = Connected 0) [p],
           w_scanned := w_scanned w + 1,
           w_remaining := rest\<rparr>]\<rparr>"
proof (cases "net (w_target w) p")
  case (Connected result)
  then show ?thesis using assms
    by (simp add: worker_step_def worker_iteration_def worker_probe_def Let_def
        stored_rows_def store_scan_result_def)
next
  case (Gaierror e)
  then show ?thesis using assms
    by (simp add: worker_step_def worker_iteration_def worker_probe_def Let_def stored_rows_def)
next
  case (Failed e)
  then show ?thesis using assms
    by (simp add: worker_step_def worker_iteration_def worker_probe_def Let_def stored_rows_def)
qed

lemma worker_step_completion:
  assumes "i < length (workers s)" "workers s ! i = w" "w_alive w" "w_remaining w = []"
    and "jobs s (w_job_id w) = Some j"
  shows "worker_step net clk i s =
     s\<lparr>jobs := (jobs s)(w_job_id w \<mapsto>
           j\<lparr>job_status := ''completed'', job_open_ports := w_open_ports w,
             job_finished_at := Some (iso clk)\<rparr>),
       logger := logger s @
         [(''RED_TEAM'',
           ''Port scan completed: '' @ w_target w @ '' - ''
             @ str_nat (length (w_open_ports w)) @ '' open ports'',
           ''INFO'')],
       workers := (workers s)[i := w\<lparr>w_alive := False\<rparr>]\<rparr>"
  using assms by (simp add: worker_step_def worker_completion_def Let_def)

lemma logged_errors_append:
  "logged_errors net tgt (ps @ qs) = logged_errors net tgt ps @ logged_errors net tgt qs"
  by (induction ps) simp_all

lemma stored_rows_append:
  "stored_rows net clk w (ps @ qs) = stored_rows net clk w ps @ stored_rows net clk w qs"
  by (simp add: stored_rows_def)

lemma stored_rows_cong:
  "w_session_id w' = w_session_id w \<Longrightarrow> w_target w' = w_target w \<Longrightarrow>
     stored_rows net clk w' ps = stored_rows net clk w ps"
  by (simp add: stored_rows_def)

lemma worker_steps_scan:
  assumes "i < length (workers s)" "workers s ! i = w" "w_alive w" "w_remaining w = p # ps @ qs"
    and "w_end_port w - w_start_port w + 1 \<noteq> 0" "jobs s (w_job_id w) = Some j"
  shows "worker_steps (Suc (length ps)) net clk i s =
     s\<lparr>jobs := (jobs s)(w_job_id w \<mapsto>
           j\<lparr>job_progress := progress_of (w_scanned w + 1 + int (length ps))
                     (w_end_port w - w_start_port w + 1)\<rparr>),
       db := (db s)\<lparr>scan_rows := scan_rows (db s) @ stored_rows net clk w (p # ps)\<rparr>,
       logger := logger s @ logged_errors net (w_target w) (p # ps),
       workers := (workers s)[i := w\<lparr>
           w_open_ports := w_open_ports w @
             filter (\<lambda>p. net (w_target w) p = Connected 0) (p # ps),
           w_scanned := w_scanned w + 1 + int (length ps),
           w_remaining := qs\<rparr>]\<rparr>"
  using assms
proof (induction ps arbitrary: p s w j)
  case Nil
  then have r: "w_remaining w = p # qs" by simp
  have e: "worker_steps (Suc (length ([] :: int list))) net clk i s = worker_step net clk i s"
    by simp
  have f: "filter (\<lambda>p. net (w_target w) p = Connected 0) [p] =
      (if net (w_target w) p = Connected 0 then [p] else [])"
    by simp
  show ?case
    unfolding e worker_step_iteration [OF Nil.prems(1,2,3) r Nil.prems(5,6), of net clk]
    by (simp only: list.size of_nat_0 add_0_right)
next
  case (Cons p' ps)
  let ?tot = "w_end_port w - w_start_port w + 1"
  let ?j1 = "j\<lparr>job_progress := progress_of (w_scanned w + 1) ?tot\<rparr>"
  let ?w1 = "w\<lparr>w_open_ports := w_open_ports w @ filter (\<lambda>p. net (w_target w) p = Connected 0) [p],
           w_scanned := w_scanned w + 1, w_remaining := p' # ps @ qs\<rparr>"
  let ?s1 = "worker_step net clk i s"
  have r: "w_remaining w = p # (p' # ps @ qs)" using Cons.prems(4) by simp
  note s1 = worker_step_iteration [OF Cons.prems(1,2,3) r Cons.prems(5,6), of net clk]
  have a: "i < length (workers ?s1)" "workers ?s1 ! i = ?w1" "w_alive ?w1"
    "w_remaining ?w1 = p' # ps @ qs" "w_end_port ?w1 - w_start_port ?w1 + 1 \<noteq> 0"
    "jobs ?s1 (w_job_id ?w1) = Some ?j1"
    using Cons.prems by (simp_all add: s1)
  have e1: "worker_steps (Suc (length (p' # ps))) net clk i s =
      worker_steps (Suc (length ps)) net clk i ?s1"
    by simp
  note e2 = Cons.IH [OF a]
  have m: "stored_rows net clk ?w1 (p' # ps) = stored_rows net clk w (p' # ps)"
    by (rule stored_rows_cong) simp_all
  have n: "stored_rows net clk w (p # p' # ps) =
      stored_rows net clk w [p] @ stored_rows net clk w (p' # ps)"
    using stored_rows_append [of net clk w "[p]" "p' # ps"] by simp
  show ?case
    unfolding e1 e2 m n
    by (rule web.equality) (simp_all add: s1 add.assoc fun_eq_iff)
qed


lemma api_start_scan_accepts:
  assumes "req_target rq = Some tgt" "tgt \<noteq> []"
  shows "fst (api_start_scan clk rq s) =
     s\<lparr>jobs := (jobs s)(''job-'' @ str_int (job_counter s + 1) \<mapsto>
           \<lparr>job_status = ''running'', job_progress = 0, job_open_ports = [],
            job_session_id = next_session_id (db s), job_started_at = iso clk,
            job_finished_at = None\<rparr>),
       job_counter := job_counter s + 1,
       db := fst (create_session (db s) ''red_team'' tgt
               [(''start_port'', req_start_port rq), (''end_port'', req_end_port rq)] (iso clk)),
       logger := logger s @
         [(''RED_TEAM'',
           ''Port scan started: '' @ tgt @ '' ports '' @ str_int (req_start_port rq) @ ''-''
             @ str_int (req_end_port rq),
           ''INFO'')],
       workers := workers s @
         [\<lparr>w_job_id = ''job-'' @ str_int (job_counter s + 1),
           w_session_id = next_session_id (db s), w_target = tgt,
           w_start_port = req_start_port rq, w_end_port = req_end_port rq,
           w_timeout = req_timeout rq, w_open_ports = [],
           w_remaining = [req_start_port rq..req_end_port rq], w_scanned = 0, w_alive = True\<rparr>]\<rparr>"
  using assms by (simp add: api_start_scan_def Let_def create_session_def)

lemma worker_steps_add:
  "worker_steps (a + b) net clk i s = worker_steps b net clk i (worker_steps a net clk i s)"
  by (induction a arbitrary: s) simp_all

lemma take_Cons_obtain:
  assumes "1 \<le> k" "k \<le> length xs"
  obtains p ps where "take k xs = p # ps" "length ps = k - 1" "xs = p # ps @ drop k xs"
proof -
  from assms obtain p ps where t: "take k xs = p # ps"
    by (cases "take k xs") auto
  have "length (take k xs) = k" using assms by simp
  then have l: "length ps = k - 1" using t by simp
  have "xs = take k xs @ drop k xs" by simp
  then have "xs = p # ps @ drop k xs" using t by simp
  with t l show ?thesis by (rule that)
qed

text \<open>The job of a request, after \<open>k\<close> ports of its range have been probed.\<close>

lemma web_job_after:
  assumes "req_target rq = Some tgt" "tgt \<noteq> []" "req_start_port rq \<le> req_end_port rq"
    and "1 \<le> k" "k \<le> nat (req_end_port rq - req_start_port rq + 1)"
  shows "jobs (worker_steps k net clk' (length (workers s)) (fst (api_start_scan clk rq s)))
       (''job-'' @ str_int (job_counter s + 1)) =
     Some \<lparr>job_status = ''running'',
           job_progress = progress_of (int k) (req_end_port rq - req_start_port rq + 1),
           job_open_ports = [], job_session_id = next_session_id (db s),
           job_started_at = iso clk, job_finished_at = None\<rparr>"
    and "workers (worker_steps k net clk' (length (workers s)) (fst (api_start_scan clk rq s)))
       ! length (workers s) =
     \<lparr>w_job_id = ''job-'' @ str_int (job_counter s + 1),
      w_session_id = next_session_id (db s), w_target = tgt,
      w_start_port = req_start_port rq, w_end_port = req_end_port rq,
      w_timeout = req_timeout rq,
      w_open_ports = filter (\<lambda>p. net tgt p = Connected 0)
        (take k [req_start_port rq..req_end_port rq]),
      w_remaining = drop k [req_start_port rq..req_end_port rq],
      w_scanned = int k, w_alive = True\<rparr>"
    and "length (workers (worker_steps k net clk' (length (workers s))
       (fst (api_start_scan clk rq s)))) = Suc (length (workers s))"
    and "logger (worker_steps k net clk' (length (workers s)) (fst (api_start_scan clk rq s))) =
       logger (fst (api_start_scan clk rq s)) @
       logged_errors net tgt (take k [req_start_port rq..req_end_port rq])"
proof -
  let ?sp = "req_start_port rq" and ?ep = "req_end_port rq"
  let ?s0 = "fst (api_start_scan clk rq s)"
  let ?i = "length (workers s)"
  let ?jid = "''job-'' @ str_int (job_counter s + 1)"
  let ?w0 = "\<lparr>w_job_id = ?jid, w_session_id = next_session_id (db s), w_target = tgt,
      w_start_port = ?sp, w_end_port = ?ep, w_timeout = req_timeout rq, w_open_ports = [],
      w_remaining = [?sp..?ep], w_scanned = 0, w_alive = True\<rparr>"
  let ?j0 = "\<lparr>job_status = ''running'', job_progress = 0, job_open_ports = [],
      job_session_id = next_session_id (db s), job_started_at = iso clk,
      job_finished_at = None\<rparr>"
  note s0 = api_start_scan_accepts [OF assms(1,2), of clk s]
  have len: "k \<le> length [?sp..?ep]" using assms(3,5) by simp
  from take_Cons_obtain [OF assms(4) len] obtain p ps where
    t: "take k [?sp..?ep] = p # ps" and l: "length ps = k - 1"
    and x: "[?sp..?ep] = p # ps @ drop k [?sp..?ep]"
    by blast
  have k: "k = Suc (length ps)" using l assms(4) by simp
  have a: "?i < length (workers ?s0)" "workers ?s0 ! ?i = ?w0" "w_alive ?w0"
    "w_remaining ?w0 = p # ps @ drop k [?sp..?ep]"
    "w_end_port ?w0 - w_start_port ?w0 + 1 \<noteq> 0" "jobs ?s0 (w_job_id ?w0) = Some ?j0"
    using assms(3) x by (simp_all add: s0)
  note c = worker_steps_scan [OF a, of net clk']
  have ik: "1 + int (length ps) = int k" using k by simp
  show "jobs (worker_steps k net clk' ?i ?s0) ?jid =
     Some \<lparr>job_status = ''running'', job_progress = progress_of (int k) (?ep - ?sp + 1),
           job_open_ports = [], job_session_id = next_session_id (db s),
           job_started_at = iso clk, job_finished_at = None\<rparr>"
    unfolding k c by (simp add: ik)
  show "workers (worker_steps k net clk' ?i ?s0) ! ?i =
     \<lparr>w_job_id = ?jid, w_session_id = next_session_id (db s), w_target = tgt,
      w_start_port = ?sp, w_end_port = ?ep, w_timeout = req_timeout rq,
      w_open_ports = filter (\<lambda>p. net tgt p = Connected 0) (take k [?sp..?ep]),
      w_remaining = drop k [?sp..?ep], w_scanned = int k, w_alive = True\<rparr>"
    unfolding t unfolding k c using a(1) by (simp add: s0 ik k [symmetric])
  show "length (workers (worker_steps k net clk' ?i ?s0)) = Suc ?i"
    unfolding k c by (simp add: s0)
  show "logger (worker_steps k net clk' ?i ?s0) =
       logger ?s0 @ logged_errors net tgt (take k [?sp..?ep])"
    unfolding t unfolding k c by simp
qed


lemma web_job_completed:
  assumes "req_target rq = Some tgt" "tgt \<noteq> []" "req_start_port rq \<le> req_end_port rq"
  shows "jobs (worker_steps (Suc (nat (req_end_port rq - req_start_port rq + 1))) net clk'
        (length (workers s)) (fst (api_start_scan clk rq s)))
       (''job-'' @ str_int (job_counter s + 1)) =
     Some \<lparr>job_status = ''completed'',
           job_progress = 100,
           job_open_ports = filter (\<lambda>p. net tgt p = Connected 0)
             [req_start_port rq..req_end_port rq],
           job_session_id = next_session_id (db s),
           job_started_at = iso clk, job_finished_at = Some (iso clk')\<rparr>"
    and "logger (worker_steps (Suc (nat (req_end_port rq - req_start_port rq + 1))) net clk'
        (length (workers s)) (fst (api_start_scan clk rq s))) =
       logger (fst (api_start_scan clk rq s)) @
       logged_errors net tgt [req_start_port rq..req_end_port rq] @
       [(''RED_TEAM'',
         ''Port scan completed: '' @ tgt @ '' - ''
           @ str_nat (length (filter (\<lambda>p. net tgt p = Connected 0)
               [req_start_port rq..req_end_port rq])) @ '' open ports'',
         ''INFO'')]"
proof -
  let ?sp = "req_start_port rq" and ?ep = "req_end_port rq"
  let ?n = "nat (?ep - ?sp + 1)"
  let ?s0 = "fst (api_start_scan clk rq s)"
  let ?i = "length (workers s)"
  let ?jid = "''job-'' @ str_int (job_counter s + 1)"
  let ?sn = "worker_steps ?n net clk' ?i ?s0"
  have n1: "1 \<le> ?n" and nn: "?n \<le> nat (?ep - ?sp + 1)" using assms(3) by simp_all
  note j = web_job_after [OF assms n1 nn, of net clk' s clk]
  have tk: "take ?n [?sp..?ep] = [?sp..?ep]" "drop ?n [?sp..?ep] = []" by simp_all
  have tot: "int ?n = ?ep - ?sp + 1" using assms(3) by simp
  have p100: "progress_of (int ?n) (?ep - ?sp + 1) = 100"
    unfolding tot using assms(3) by (intro progress_of_full) simp
  let ?w = "workers ?sn ! ?i"
  have a: "?i < length (workers ?sn)" "workers ?sn ! ?i = ?w" "w_alive ?w" "w_remaining ?w = []"
    by (simp_all add: j tk)
  have jj: "jobs ?sn (w_job_id ?w) =
     Some \<lparr>job_status = ''running'', job_progress = 100,
           job_open_ports = [], job_session_id = next_session_id (db s),
           job_started_at = iso clk, job_finished_at = None\<rparr>"
  proof -
    have wj: "w_job_id ?w = ?jid" by (simp add: j(2))
    show ?thesis unfolding wj using j(1) [unfolded p100] .
  qed
  note c = worker_step_completion [OF a jj, of net clk']
  have e: "worker_steps (Suc ?n) net clk' ?i ?s0 = worker_step net clk' ?i ?sn"
    using worker_steps_add [of ?n 1 net clk' ?i ?s0] by simp
  show "jobs (worker_steps (Suc ?n) net clk' ?i ?s0) ?jid =
     Some \<lparr>job_status = ''completed'', job_progress = 100,
           job_open_ports = filter (\<lambda>p. net tgt p = Connected 0) [?sp..?ep],
           job_session_id = next_session_id (db s),
           job_started_at = iso clk, job_finished_at = Some (iso clk')\<rparr>"
    unfolding e c by (simp add: j(2) tk)
  show "logger (worker_steps (Suc ?n) net clk' ?i ?s0) =
       logger ?s0 @ logged_errors net tgt [?sp..?ep] @
       [(''RED_TEAM'',
         ''Port scan completed: '' @ tgt @ '' - ''
           @ str_nat (length (filter (\<lambda>p. net tgt p = Connected 0) [?sp..?ep]))
           @ '' open ports'',
         ''INFO'')]"
    unfolding e c by (simp add: j(2) j(4) tk)
qed

lemma fl_zero: "fl 0 = 0"
  by (simp add: fl_def)

lemma progress_of_zero: "progress_of 0 tot = 0"
  by (simp add: progress_of_def fl_zero py_int_def)

lemma loop_signals_last:
  "ps \<noteq> [] \<Longrightarrow> \<exists>pre. loop_signals net tgt tot n ps =
     pre @ [Progress_update (progress_of (n + int (length ps)) tot)]"
proof (induction ps arbitrary: n)
  case Nil
  then show ?case by simp
next
  case (Cons p ps)
  show ?case
  proof (cases "ps = []")
    case True
    then show ?thesis by simp
  next
    case False
    from Cons.IH [OF False, of "n + 1"] obtain pre where
      "loop_signals net tgt tot (n + 1) ps =
         pre @ [Progress_update (progress_of (n + 1 + int (length ps)) tot)]"
      by blast
    then have "loop_signals net tgt tot n (p # ps) =
      ((if scan_port net tgt p = ''open'' then [Result_update tgt p (identify_service p)] else [])
        @ [Progress_update (progress_of (n + 1) tot)] @ pre)
      @ [Progress_update (progress_of (n + int (length (p # ps))) tot)]"
      by (simp add: algebra_simps)
    then show ?thesis by blast
  qed
qed


subsection \<open>Progress\<close>

lemma run_ends_at_100:
  assumes "sp \<le> ep"
  shows "\<exists>pre res. emitted (run net now (new_scanner tgt sp ep tmo)) =
     pre @ [Progress_update 100, Scan_complete res]"
proof -
  have ne: "[sp..ep] \<noteq> []" using assms by simp
  from loop_signals_last [OF ne, of net tgt "ep - sp + 1" 0] obtain pre where
    l: "loop_signals net tgt (ep - sp + 1) 0 [sp..ep] =
        pre @ [Progress_update (progress_of (0 + int (length [sp..ep])) (ep - sp + 1))]"
    by blast
  have "0 + int (length [sp..ep]) = ep - sp + 1" using assms by simp
  moreover have "progress_of (ep - sp + 1) (ep - sp + 1) = 100"
    using assms by (intro progress_of_full) simp
  ultimately have "loop_signals net tgt (ep - sp + 1) 0 [sp..ep] = pre @ [Progress_update 100]"
    using l by simp
  then show ?thesis by (simp add: run_fresh [OF assms])
qed

text \<open>
  Claim C3, as amended.  For a scan over a valid range, after every port attempt,
  whatever its outcome, the progress is set to \<open>int((scanned / total) * 100)\<close> as
  binary floating point computes it.  For a range of at most \<open>2 ^ 44\<close> ports this is
  \<open>floor(scanned / total \<times> 100)\<close> whenever \<open>scanned \<times> 100 / total\<close> is not a whole
  number, and otherwise that whole number or one less.  The scanner thread emits these
  values for \<open>scanned\<close> = 1, 2, ... in a non-decreasing sequence, whether it runs to
  its end or is stopped after \<open>c\<close> ports.  A scan that is not stopped emits exactly 100
  immediately before the completion signal; a scan that is stopped emits the completion
  signal after the progress of the last port it attempted.  The worker of the web
  interface, which cannot be stopped, writes the same values into its job, which is
  \<open>running\<close> with them and shows exactly 100 in the state in which it is \<open>completed\<close>;
  the formula is non-decreasing in \<open>scanned\<close> and 0 at 0, the progress a job is created
  with.
\<close>

theorem progress_nondecreasing_and_complete_at_100:
  "(sp \<le> ep \<longrightarrow>
      progress_values (emitted (run net now (new_scanner tgt sp ep tmo))) =
        map (\<lambda>i. progress_of (1 + int i) (ep - sp + 1)) [0..<nat (ep - sp + 1)] \<and>
      sorted (progress_values (emitted (run net now (new_scanner tgt sp ep tmo)))) \<and>
      (\<exists>pre res. emitted (run net now (new_scanner tgt sp ep tmo)) =
         pre @ [Progress_update 100, Scan_complete res])) \<and>
   (sp \<le> ep \<and> c \<le> nat (ep - sp + 1) \<longrightarrow>
      progress_values (emitted (run_to_end net now (stop (steps c net now (start_thread (new_scanner tgt sp ep tmo)))))) =
        map (\<lambda>i. progress_of (1 + int i) (ep - sp + 1)) [0..<c] \<and>
      sorted (progress_values (emitted (run_to_end net now (stop (steps c net now (start_thread (new_scanner tgt sp ep tmo))))))) \<and>
      (\<exists>res. emitted (run_to_end net now (stop (steps c net now (start_thread (new_scanner tgt sp ep tmo))))) =
         loop_signals net tgt (ep - sp + 1) 0 (take c [sp..ep]) @ [Scan_complete res])) \<and>
   (0 < tot \<and> a \<le> b \<longrightarrow> progress_of a tot \<le> progress_of b tot) \<and>
   progress_of 0 tot = 0 \<and>
   (0 < a \<and> a \<le> tot \<and> tot \<le> 2 ^ 44 \<longrightarrow>
      spec_progress a tot - 1 \<le> progress_of a tot \<and> progress_of a tot \<le> spec_progress a tot \<and>
      ((a * 100) mod tot \<noteq> 0 \<longrightarrow> progress_of a tot = spec_progress a tot)) \<and>
   (req_target rq = Some tgt \<and> tgt \<noteq> [] \<and> req_start_port rq \<le> req_end_port rq \<longrightarrow>
      (1 \<le> k \<and> k \<le> nat (req_end_port rq - req_start_port rq + 1) \<longrightarrow>
         map_option job_status
           (jobs (worker_steps k net clk' (length (workers s)) (fst (api_start_scan clk rq s)))
              (''job-'' @ str_int (job_counter s + 1))) = Some ''running'' \<and>
         map_option job_progress
           (jobs (worker_steps k net clk' (length (workers s)) (fst (api_start_scan clk rq s)))
              (''job-'' @ str_int (job_counter s + 1))) =
           Some (progress_of (int k) (req_end_port rq - req_start_port rq + 1))) \<and>
      map_option job_status
        (jobs (worker_steps (Suc (nat (req_end_port rq - req_start_port rq + 1))) net clk'
           (length (workers s)) (fst (api_start_scan clk rq s)))
           (''job-'' @ str_int (job_counter s + 1))) = Some ''completed'' \<and>
      map_option job_progress
        (jobs (worker_steps (Suc (nat (req_end_port rq - req_start_port rq + 1))) net clk'
           (length (workers s)) (fst (api_start_scan clk rq s)))
           (''job-'' @ str_int (job_counter s + 1))) = Some 100)"
proof (intro conjI impI)
  assume v: "sp \<le> ep"
  have len: "length [sp..ep] = nat (ep - sp + 1)" by simp
  show pv: "progress_values (emitted (run net now (new_scanner tgt sp ep tmo))) =
        map (\<lambda>i. progress_of (1 + int i) (ep - sp + 1)) [0..<nat (ep - sp + 1)]"
    using progress_values_loop [of net tgt "ep - sp + 1" 0 "[sp..ep]"]
    by (simp add: run_fresh [OF v] progress_values_append)
  have "0 < ep - sp + 1" using v by simp
  from sorted_progress [OF this, of 0 "nat (ep - sp + 1)"]
  show "sorted (progress_values (emitted (run net now (new_scanner tgt sp ep tmo))))"
    unfolding pv by simp
  show "\<exists>pre res. emitted (run net now (new_scanner tgt sp ep tmo)) =
         pre @ [Progress_update 100, Scan_complete res]"
    by (rule run_ends_at_100 [OF v])
next
  assume "sp \<le> ep \<and> c \<le> nat (ep - sp + 1)"
  then have v: "sp \<le> ep" and c: "c \<le> nat (ep - sp + 1)" by auto
  note e = cancelled_fresh [OF v c, of net now tgt tmo]
  have len: "length (take c [sp..ep]) = c" using c by simp
  show pv: "progress_values (emitted (run_to_end net now (stop (steps c net now (start_thread (new_scanner tgt sp ep tmo)))))) =
        map (\<lambda>i. progress_of (1 + int i) (ep - sp + 1)) [0..<c]"
    using progress_values_loop [of net tgt "ep - sp + 1" 0 "take c [sp..ep]"]
    unfolding e len by (simp add: progress_values_append)
  have "0 < ep - sp + 1" using v by simp
  from sorted_progress [OF this, of 0 c]
  show "sorted (progress_values (emitted (run_to_end net now (stop (steps c net now (start_thread (new_scanner tgt sp ep tmo)))))))"
    unfolding pv by simp
  show "\<exists>res. emitted (run_to_end net now (stop (steps c net now (start_thread (new_scanner tgt sp ep tmo))))) =
         loop_signals net tgt (ep - sp + 1) 0 (take c [sp..ep]) @ [Scan_complete res]"
    unfolding e by simp
next
  assume "0 < tot \<and> a \<le> b"
  then show "progress_of a tot \<le> progress_of b tot" by (intro progress_of_mono) simp_all
next
  show "progress_of 0 tot = 0" by (rule progress_of_zero)
next
  assume f: "0 < a \<and> a \<le> tot \<and> tot \<le> 2 ^ 44"
  then have f1: "0 < a" and f2: "a \<le> tot" and f3: "tot \<le> 2 ^ 44" by auto
  show "spec_progress a tot - 1 \<le> progress_of a tot"
    by (rule progress_of_near_floor(1) [OF f1 f2 f3])
  show "progress_of a tot \<le> spec_progress a tot"
    by (rule progress_of_near_floor(2) [OF f1 f2 f3])
  assume "(a * 100) mod tot \<noteq> 0"
  then show "progress_of a tot = spec_progress a tot"
    by (rule progress_of_near_floor(3) [OF f1 f2 f3])
next
  assume r: "req_target rq = Some tgt \<and> tgt \<noteq> [] \<and> req_start_port rq \<le> req_end_port rq"
    and k: "1 \<le> k \<and> k \<le> nat (req_end_port rq - req_start_port rq + 1)"
  from r have r1: "req_target rq = Some tgt" and r2: "tgt \<noteq> []"
    and r3: "req_start_port rq \<le> req_end_port rq" by auto
  from k have k1: "1 \<le> k" and k2: "k \<le> nat (req_end_port rq - req_start_port rq + 1)" by auto
  note j = web_job_after(1) [OF r1 r2 r3 k1 k2, of net clk' s clk]
  show "map_option job_status
           (jobs (worker_steps k net clk' (length (workers s)) (fst (api_start_scan clk rq s)))
              (''job-'' @ str_int (job_counter s + 1))) = Some ''running''"
    unfolding j by simp
  show "map_option job_progress
           (jobs (worker_steps k net clk' (length (workers s)) (fst (api_start_scan clk rq s)))
              (''job-'' @ str_int (job_counter s + 1))) =
           Some (progress_of (int k) (req_end_port rq - req_start_port rq + 1))"
    unfolding j by simp
next
  assume r: "req_target rq = Some tgt \<and> tgt \<noteq> [] \<and> req_start_port rq \<le> req_end_port rq"
  then have r1: "req_target rq = Some tgt" and r2: "tgt \<noteq> []"
    and r3: "req_start_port rq \<le> req_end_port rq" by auto
  note j = web_job_completed(1) [OF r1 r2 r3, of net clk' s clk]
  show "map_option job_status
        (jobs (worker_steps (Suc (nat (req_end_port rq - req_start_port rq + 1))) net clk'
           (length (workers s)) (fst (api_start_scan clk rq s)))
           (''job-'' @ str_int (job_counter s + 1))) = Some ''completed''"
    unfolding j by simp
  show "map_option job_progress
        (jobs (worker_steps (Suc (nat (req_end_port rq - req_start_port rq + 1))) net clk'
           (length (workers s)) (fst (api_start_scan clk rq s)))
           (''job-'' @ str_int (job_counter s + 1))) = Some 100"
    unfolding j by simp
qed


theorem progress_nondecreasing_and_complete_at_100_witness:
  "(1::int) \<le> 3 \<and> (0::int) < 3 \<and> (1::int) \<le> 2 \<and>
   req_target ssh_request = Some ''host'' \<and> ''host'' \<noteq> [] \<and>
   req_start_port ssh_request \<le> req_end_port ssh_request \<and>
   (1::nat) \<le> 2 \<and> (2::nat) \<le> nat (req_end_port ssh_request - req_start_port ssh_request + 1) \<and>
   sorted (progress_values (emitted (run only_ssh ''t0'' (new_scanner ''host'' 1 3 1)))) \<and>
   progress_of 1 3 \<le> progress_of 2 3 \<and>
   (0::int) < 1 \<and> (3::int) \<le> 2 ^ 44 \<and>
   spec_progress 1 3 - 1 \<le> progress_of 1 3 \<and> progress_of 1 3 \<le> spec_progress 1 3 \<and>
   ((1::int) * 100) mod 3 \<noteq> 0 \<and> progress_of 1 3 = spec_progress 1 3 \<and>
   (1::nat) \<le> nat ((3::int) - 1 + 1) \<and>
   progress_values (emitted (run_to_end only_ssh ''t0'' (stop (steps 1 only_ssh ''t0''
        (start_thread (new_scanner ''host'' 1 3 1)))))) = [33] \<and>
   sorted (progress_values (emitted (run_to_end only_ssh ''t0'' (stop (steps 1 only_ssh ''t0''
        (start_thread (new_scanner ''host'' 1 3 1))))))) \<and>
   map_option job_status
     (jobs (worker_steps 2 only_ssh clock0 (length (workers (web_init empty_db)))
        (fst (api_start_scan clock0 ssh_request (web_init empty_db))))
        (''job-'' @ str_int (job_counter (web_init empty_db) + 1))) = Some ''running'' \<and>
   map_option job_progress
     (jobs (worker_steps (Suc (nat (req_end_port ssh_request - req_start_port ssh_request + 1)))
        only_ssh clock0 (length (workers (web_init empty_db)))
        (fst (api_start_scan clock0 ssh_request (web_init empty_db))))
        (''job-'' @ str_int (job_counter (web_init empty_db) + 1))) = Some 100"
proof -
  have h1: "(1::int) \<le> 3" and h2: "(0::int) < 3 \<and> (1::int) \<le> 2" by simp_all
  have h3: "req_target ssh_request = Some ''host'' \<and> ''host'' \<noteq> [] \<and>
      req_start_port ssh_request \<le> req_end_port ssh_request"
    by (simp add: ssh_request_def)
  have h4: "(1::nat) \<le> 2 \<and> (2::nat) \<le> nat (req_end_port ssh_request - req_start_port ssh_request + 1)"
    by (simp add: ssh_request_def)
  note t = progress_nondecreasing_and_complete_at_100
    [where sp = 1 and ep = 3 and net = only_ssh and now = "''t0''" and tgt = "''host''"
      and tmo = 1 and c = 1 and tot = 3 and a = 1 and b = 2 and rq = ssh_request and k = 2
      and clk' = clock0 and s = "web_init empty_db" and clk = clock0]
  from t h1 have w1: "sorted (progress_values (emitted (run only_ssh ''t0''
      (new_scanner ''host'' 1 3 1))))"
    by blast
  from t h2 have w2: "progress_of 1 3 \<le> progress_of 2 3" by blast
  have h5: "(0::int) < 1 \<and> (1::int) \<le> 3 \<and> (3::int) \<le> 2 ^ 44" by simp
  from t h5 have w5: "spec_progress 1 3 - 1 \<le> progress_of 1 3 \<and>
      progress_of 1 3 \<le> spec_progress 1 3"
    by blast
  have h6: "((1::int) * 100) mod 3 \<noteq> 0" by simp
  from t h5 h6 have w6: "progress_of 1 3 = spec_progress 1 3" by blast
  have h7: "(1::nat) \<le> nat ((3::int) - 1 + 1)" by simp
  from t h1 h7 have w7': "progress_values (emitted (run_to_end only_ssh ''t0'' (stop (steps 1 only_ssh ''t0''
        (start_thread (new_scanner ''host'' 1 3 1)))))) =
      map (\<lambda>i. progress_of (1 + int i) (3 - 1 + 1)) [0..<1]"
    by blast
  have w7: "progress_values (emitted (run_to_end only_ssh ''t0'' (stop (steps 1 only_ssh ''t0''
        (start_thread (new_scanner ''host'' 1 3 1)))))) = [33]"
    unfolding w7' by (simp add: progress_1_3)
  from t h1 h7 have w8: "sorted (progress_values (emitted (run_to_end only_ssh ''t0'' (stop (steps 1 only_ssh ''t0''
        (start_thread (new_scanner ''host'' 1 3 1)))))))"
    by blast
  from t h3 h4 have w3: "map_option job_status
     (jobs (worker_steps 2 only_ssh clock0 (length (workers (web_init empty_db)))
        (fst (api_start_scan clock0 ssh_request (web_init empty_db))))
        (''job-'' @ str_int (job_counter (web_init empty_db) + 1))) = Some ''running''"
    by blast
  from t h3 have w4: "map_option job_progress
     (jobs (worker_steps (Suc (nat (req_end_port ssh_request - req_start_port ssh_request + 1)))
        only_ssh clock0 (length (workers (web_init empty_db)))
        (fst (api_start_scan clock0 ssh_request (web_init empty_db))))
        (''job-'' @ str_int (job_counter (web_init empty_db) + 1))) = Some 100"
    by blast
  from h1 h2 h3 h4 h5 h6 h7 w1 w2 w3 w4 w5 w6 w7 w8 show ?thesis by blast
qed

text \<open>
  The claim as stated fails twice.  In a scan of 100 ports the progress after the 29th
  port is 28, and the floor of 29 / 100 \<times> 100 is 29.  And a scan of ports 1 to 3 that is
  stopped after its first port is recorded as \<open>completed\<close> while its progress is 33.
\<close>

theorem progress_floor_counterexample:
  "progress_values (emitted (run all_closed ''t0'' (new_scanner ''host'' 1 100 1))) ! 28 = 28 \<and>
   spec_progress 29 100 = 29 \<and>
   progress_bar (process_events clock0 (stop_scan all_closed clock0
        (thread_runs all_closed clock0 (start_scan clock0 example_module)))) = 33 \<and>
   session_status (db_manager (process_events clock0 (stop_scan all_closed clock0
        (thread_runs all_closed clock0 (start_scan clock0 example_module))))) 1 =
     Some ''completed''"
proof (intro conjI)
  have v: "(1::int) \<le> 100" by simp
  have "progress_values (emitted (run all_closed ''t0'' (new_scanner ''host'' 1 100 1))) =
      map (\<lambda>i. progress_of (0 + 1 + int i) (100 - 1 + 1)) [0..<length [1..100::int]]"
    using progress_values_loop [of all_closed "''host''" "100 - 1 + 1" 0 "[1..100]"]
    by (simp add: run_fresh [OF v] progress_values_append)
  also have "\<dots> ! 28 = progress_of 29 100" by simp
  finally show "progress_values (emitted (run all_closed ''t0''
      (new_scanner ''host'' 1 100 1))) ! 28 = 28"
    by (simp add: progress_29_100)
  show "spec_progress 29 100 = 29" by (simp add: spec_progress_def)
  show "progress_bar (process_events clock0 (stop_scan all_closed clock0
        (thread_runs all_closed clock0 (start_scan clock0 example_module)))) = 33"
    by (simp add: example_module_def start_scan_def py_strip_def is_space_def create_session_def
      empty_db_def clock0_def Let_def thread_runs_def start_thread_def new_scanner_def
      thread_step_def loop_body_def scan_port_def all_closed_def total_ports_def upto.simps
      stop_scan_def stop_def run_to_end.simps finish_def results_of_def
      process_events_def update_progress_def scan_finished_def update_session_def
      progress_1_3)
  show "session_status (db_manager (process_events clock0 (stop_scan all_closed clock0
        (thread_runs all_closed clock0 (start_scan clock0 example_module))))) 1 =
     Some ''completed''"
    by (simp add: example_module_def start_scan_def py_strip_def is_space_def create_session_def
      empty_db_def clock0_def Let_def thread_runs_def start_thread_def new_scanner_def
      thread_step_def loop_body_def scan_port_def all_closed_def total_ports_def upto.simps
      stop_scan_def stop_def run_to_end.simps finish_def results_of_def
      process_events_def update_progress_def scan_finished_def update_session_def
      session_status_def)
qed


subsection \<open>A target that cannot be resolved\<close>

lemma loop_signals_unresolved:
  assumes "\<forall>p. \<exists>e. net tgt p = Gaierror e"
  shows "loop_signals net tgt tot n ps =
     map (\<lambda>i. Progress_update (progress_of (n + 1 + int i) tot)) [0..<length ps]"
proof (induction ps arbitrary: n)
  case Nil
  then show ?case by simp
next
  case (Cons p ps)
  obtain e where e: "net tgt p = Gaierror e" using assms by blast
  have c: "scan_port net tgt p \<noteq> ''open''" by (simp add: scan_port_def e)
  have "map (\<lambda>i. Progress_update (progress_of (n + 1 + int i) tot)) [0..<length (p # ps)] =
      Progress_update (progress_of (n + 1) tot) #
      map (\<lambda>i. Progress_update (progress_of (n + 1 + 1 + int i) tot)) [0..<length ps]"
    by (simp only: length_Cons map_upt_Suc) (simp add: algebra_simps)
  then show ?case using Cons.IH [of "n + 1"] c by simp
qed

lemma none_open_unresolved:
  assumes "\<forall>p. \<exists>e. net tgt p = Gaierror e"
  shows "filter (\<lambda>p. net tgt p = Connected 0) ps = []"
proof -
  have "\<And>p. net tgt p \<noteq> Connected 0"
  proof -
    fix p
    obtain e where "net tgt p = Gaierror e" using assms by blast
    then show "net tgt p \<noteq> Connected 0" by simp
  qed
  then show ?thesis by simp
qed

lemma logged_errors_unresolved:
  assumes "\<forall>p. \<exists>e. net tgt p = Gaierror e"
  shows "length (logged_errors net tgt ps) = length ps"
proof (induction ps)
  case Nil
  then show ?case by simp
next
  case (Cons p ps)
  obtain e where "net tgt p = Gaierror e" using assms by blast
  then show ?case using Cons by simp
qed

text \<open>
  Claim C2, as amended.  When the target cannot be resolved, so that every probe ends in
  a host resolution error, the task is not aborted and does not fail.  The scanner
  thread takes each such port as not open and goes on: over a valid range it emits one
  progress signal for every port of the range and then the completion signal with an
  empty list of open ports, and it emits no result and no error signal.  The worker of the
  web interface logs the error of each port and goes on likewise: it logs one error for
  every port of the range, and its job ends \<open>completed\<close> with progress 100 and no open
  port.
\<close>

theorem unresolved_host_is_scanned_to_the_end:
  "(\<forall>p. \<exists>e. net tgt p = Gaierror e) \<longrightarrow>
     (sp \<le> ep \<longrightarrow>
        emitted (run net now (new_scanner tgt sp ep tmo)) =
          map (\<lambda>i. Progress_update (progress_of (1 + int i) (ep - sp + 1)))
            [0..<nat (ep - sp + 1)] @
          [Scan_complete \<lparr>res_target = tgt, res_start_port = sp, res_end_port = ep,
             res_open_ports = [], res_scan_time = now\<rparr>] \<and>
        errors_of (emitted (run net now (new_scanner tgt sp ep tmo))) = [] \<and>
        result_updates (emitted (run net now (new_scanner tgt sp ep tmo))) = []) \<and>
     (req_target rq = Some tgt \<and> tgt \<noteq> [] \<and> req_start_port rq \<le> req_end_port rq \<longrightarrow>
        map_option job_status
          (jobs (worker_steps (Suc (nat (req_end_port rq - req_start_port rq + 1))) net clk'
             (length (workers s)) (fst (api_start_scan clk rq s)))
             (''job-'' @ str_int (job_counter s + 1))) = Some ''completed'' \<and>
        map_option job_open_ports
          (jobs (worker_steps (Suc (nat (req_end_port rq - req_start_port rq + 1))) net clk'
             (length (workers s)) (fst (api_start_scan clk rq s)))
             (''job-'' @ str_int (job_counter s + 1))) = Some [] \<and>
        logger (worker_steps (Suc (nat (req_end_port rq - req_start_port rq + 1))) net clk'
             (length (workers s)) (fst (api_start_scan clk rq s))) =
          logger (fst (api_start_scan clk rq s)) @
          logged_errors net tgt [req_start_port rq..req_end_port rq] @
          [(''RED_TEAM'', ''Port scan completed: '' @ tgt @ '' - 0 open ports'', ''INFO'')] \<and>
        length (logged_errors net tgt [req_start_port rq..req_end_port rq]) =
          nat (req_end_port rq - req_start_port rq + 1))"
proof (intro conjI impI)
  assume u: "\<forall>p. \<exists>e. net tgt p = Gaierror e" and v: "sp \<le> ep"
  have fo: "found_open net tgt [sp..ep] = []"
    using none_open_unresolved [where net = net and tgt = tgt and ps = "[sp..ep]", OF u]
    by (simp add: found_open_eq)
  have ls: "loop_signals net tgt (ep - sp + 1) 0 [sp..ep] =
      map (\<lambda>i. Progress_update (progress_of (1 + int i) (ep - sp + 1))) [0..<nat (ep - sp + 1)]"
    using loop_signals_unresolved [where net = net and tgt = tgt and tot = "ep - sp + 1"
        and n = 0 and ps = "[sp..ep]", OF u]
    by simp
  show "emitted (run net now (new_scanner tgt sp ep tmo)) =
          map (\<lambda>i. Progress_update (progress_of (1 + int i) (ep - sp + 1)))
            [0..<nat (ep - sp + 1)] @
          [Scan_complete \<lparr>res_target = tgt, res_start_port = sp, res_end_port = ep,
             res_open_ports = [], res_scan_time = now\<rparr>]"
    by (simp add: run_fresh [OF v] fo ls)
  show "errors_of (emitted (run net now (new_scanner tgt sp ep tmo))) = []"
    by (simp add: run_fresh [OF v] errors_of_append errors_of_loop)
  show "result_updates (emitted (run net now (new_scanner tgt sp ep tmo))) = []"
    by (simp add: run_fresh [OF v] result_updates_append result_updates_loop fo)
next
  assume u: "\<forall>p. \<exists>e. net tgt p = Gaierror e"
    and r: "req_target rq = Some tgt \<and> tgt \<noteq> [] \<and> req_start_port rq \<le> req_end_port rq"
  from r have r1: "req_target rq = Some tgt" and r2: "tgt \<noteq> []"
    and r3: "req_start_port rq \<le> req_end_port rq" by auto
  note j = web_job_completed [OF r1 r2 r3, of net clk' s clk]
  note no = none_open_unresolved [where net = net and tgt = tgt
      and ps = "[req_start_port rq..req_end_port rq]", OF u]
  show "map_option job_status
          (jobs (worker_steps (Suc (nat (req_end_port rq - req_start_port rq + 1))) net clk'
             (length (workers s)) (fst (api_start_scan clk rq s)))
             (''job-'' @ str_int (job_counter s + 1))) = Some ''completed''"
    unfolding j(1) by simp
  show "map_option job_open_ports
          (jobs (worker_steps (Suc (nat (req_end_port rq - req_start_port rq + 1))) net clk'
             (length (workers s)) (fst (api_start_scan clk rq s)))
             (''job-'' @ str_int (job_counter s + 1))) = Some []"
    unfolding j(1) no by simp
  show "logger (worker_steps (Suc (nat (req_end_port rq - req_start_port rq + 1))) net clk'
             (length (workers s)) (fst (api_start_scan clk rq s))) =
          logger (fst (api_start_scan clk rq s)) @
          logged_errors net tgt [req_start_port rq..req_end_port rq] @
          [(''RED_TEAM'', ''Port scan completed: '' @ tgt @ '' - 0 open ports'', ''INFO'')]"
    unfolding j(2) no by (simp add: str_nat.simps digit_char_def)
  show "length (logged_errors net tgt [req_start_port rq..req_end_port rq]) =
          nat (req_end_port rq - req_start_port rq + 1)"
    using logged_errors_unresolved [where net = net and tgt = tgt
        and ps = "[req_start_port rq..req_end_port rq]", OF u]
    by simp
qed

theorem unresolved_host_is_scanned_to_the_end_witness:
  "(\<forall>p. unresolved ''nohost'' p = Gaierror ''[Errno -2] Name or service not known'') \<and>
   (1::int) \<le> 3 \<and>
   errors_of (emitted (run unresolved ''t0'' (new_scanner ''nohost'' 1 3 1))) = [] \<and>
   length (emitted (run unresolved ''t0'' (new_scanner ''nohost'' 1 3 1))) = 4 \<and>
   req_target (ssh_request\<lparr>req_target := Some ''nohost''\<rparr>) = Some ''nohost'' \<and>
   ''nohost'' \<noteq> [] \<and>
   req_start_port (ssh_request\<lparr>req_target := Some ''nohost''\<rparr>)
     \<le> req_end_port (ssh_request\<lparr>req_target := Some ''nohost''\<rparr>) \<and>
   map_option job_status
     (jobs (worker_steps 3 unresolved clock0 0
        (fst (api_start_scan clock0 (ssh_request\<lparr>req_target := Some ''nohost''\<rparr>)
           (web_init empty_db)))) ''job-1'') = Some ''completed''"
proof -
  let ?rq = "ssh_request\<lparr>req_target := Some ''nohost''\<rparr>"
  have u: "\<forall>p. unresolved ''nohost'' p = Gaierror ''[Errno -2] Name or service not known''"
    by (simp add: unresolved_def)
  then have u': "\<forall>p. \<exists>e. unresolved ''nohost'' p = Gaierror e" by blast
  have v: "(1::int) \<le> 3" by simp
  have r: "req_target ?rq = Some ''nohost'' \<and> ''nohost'' \<noteq> [] \<and>
      req_start_port ?rq \<le> req_end_port ?rq"
    by (simp add: ssh_request_def)
  note t = unresolved_host_is_scanned_to_the_end
    [where net = unresolved and tgt = "''nohost''" and sp = 1 and ep = 3 and now = "''t0''"
      and tmo = 1 and rq = ?rq and clk' = clock0 and clk = clock0 and s = "web_init empty_db"]
  from t u' v have w1: "errors_of (emitted (run unresolved ''t0''
      (new_scanner ''nohost'' 1 3 1))) = []"
    by blast
  from t u' v have "emitted (run unresolved ''t0'' (new_scanner ''nohost'' 1 3 1)) =
          map (\<lambda>i. Progress_update (progress_of (1 + int i) (3 - 1 + 1)))
            [0..<nat (3 - 1 + 1)] @
          [Scan_complete \<lparr>res_target = ''nohost'', res_start_port = 1, res_end_port = 3,
             res_open_ports = [], res_scan_time = ''t0''\<rparr>]"
    by blast
  then have w2: "length (emitted (run unresolved ''t0'' (new_scanner ''nohost'' 1 3 1))) = 4"
    by simp
  have n: "Suc (nat (req_end_port ?rq - req_start_port ?rq + 1)) = 3"
    by (simp add: ssh_request_def)
  have i: "length (workers (web_init empty_db)) = 0"
    "''job-'' @ str_int (job_counter (web_init empty_db) + 1) = ''job-1''"
    by (simp_all add: web_init_def str_int_def str_nat.simps digit_char_def)
  from t u' r have "map_option job_status
          (jobs (worker_steps (Suc (nat (req_end_port ?rq - req_start_port ?rq + 1)))
             unresolved clock0 (length (workers (web_init empty_db)))
             (fst (api_start_scan clock0 ?rq (web_init empty_db))))
             (''job-'' @ str_int (job_counter (web_init empty_db) + 1))) = Some ''completed''"
    by blast
  then have w3: "map_option job_status
     (jobs (worker_steps 3 unresolved clock0 0
        (fst (api_start_scan clock0 ?rq (web_init empty_db)))) ''job-1'') = Some ''completed''"
    unfolding n i .
  from u v w1 w2 r w3 show ?thesis by blast
qed

text \<open>
  The claim as stated fails: on a target that cannot be resolved, a scan of ports 1 to 3
  attempts all three ports, emits no error, and ends with the completion signal; the
  module records the session as \<open>completed\<close>.
\<close>

theorem unresolved_host_counterexample:
  "length (progress_values (emitted (run unresolved ''t0'' (new_scanner ''nohost'' 1 3 1)))) = 3 \<and>
   errors_of (emitted (run unresolved ''t0'' (new_scanner ''nohost'' 1 3 1))) = [] \<and>
   length (completions (emitted (run unresolved ''t0'' (new_scanner ''nohost'' 1 3 1)))) = 1 \<and>
   session_status (db_manager (process_events clock0
     (thread_finishes unresolved clock0 (start_scan clock0 example_module)))) 1 =
     Some ''completed''"
proof (intro conjI)
  have v: "(1::int) \<le> 3" by simp
  note r = run_fresh [OF v, of unresolved "''t0''" "''nohost''" 1]
  show "length (progress_values (emitted (run unresolved ''t0''
      (new_scanner ''nohost'' 1 3 1)))) = 3"
    by (simp add: r progress_values_append progress_values_loop)
  show "errors_of (emitted (run unresolved ''t0'' (new_scanner ''nohost'' 1 3 1))) = []"
    by (simp add: r errors_of_append errors_of_loop)
  show "length (completions (emitted (run unresolved ''t0''
      (new_scanner ''nohost'' 1 3 1)))) = 1"
    by (simp add: r completions_append completions_loop)
  show "session_status (db_manager (process_events clock0
     (thread_finishes unresolved clock0 (start_scan clock0 example_module)))) 1 =
     Some ''completed''"
    by (simp add: example_module_def start_scan_def py_strip_def is_space_def create_session_def
        empty_db_def clock0_def Let_def thread_finishes_def start_thread_def new_scanner_def
        thread_step_def loop_body_def scan_port_def unresolved_def total_ports_def upto.simps
        run_to_end.simps finish_def results_of_def
        process_events_def update_progress_def scan_finished_def update_session_def
        session_status_def)
qed

end
